theory Spec2Isabelle
  imports Complex_Main "HOL-Library.Word"
begin

unbundle bit_operations_syntax

section \<open>The registry contract (src/contracts/PortfolioRegistry.sol)\<close>

text \<open>
  Solidity's value types are machine words: an \<open>address\<close> has 160 bits, a \<open>bytes32\<close> 256
  and a \<open>uint128\<close> 128. The contract's only storage variable is the nested mapping
  \<open>amountOf\<close>; a Solidity mapping is total (a key never written reads as zero), so it is a
  total function here. The log of emitted events is kept beside it, in emission order.
\<close>

type_synonym address = "160 word"
type_synonym bytes32 = "256 word"
type_synonym uint128 = "128 word"
type_synonym uint256 = "256 word"

datatype event =
    AssetUpdated address bytes32 uint128
  | AssetsBatchUpdated address uint256

record registry =
  amountOf :: "address \<Rightarrow> bytes32 \<Rightarrow> uint128"
  events :: "event list"

text \<open>
  A call fails either through \<open>require\<close> (\<open>Revert\<close> with its message) or through a checked
  array access outside the array (\<open>Panic\<close> with Solidity's code \<open>0x32\<close>).
\<close>

datatype failure = Revert string | Panic nat

text \<open>The contract as deployed: every amount is zero and nothing has been logged.\<close>

definition deployed :: registry where
  "deployed = \<lparr>amountOf = (\<lambda>_ _. 0), events = []\<rparr>"

text \<open>
  The two statements that \<open>set\<close> and the body of \<open>setMany\<close>'s loop share:
  \<^verbatim>\<open>amountOf[msg.sender][assetId] = amount; emit AssetUpdated(msg.sender, assetId, amount);\<close>
\<close>

definition store_amount :: "address \<Rightarrow> bytes32 \<Rightarrow> uint128 \<Rightarrow> registry \<Rightarrow> registry" where
  "store_amount sender assetId amount s =
     s\<lparr>amountOf := (amountOf s)(sender := (amountOf s sender)(assetId := amount)),
       events := events s @ [AssetUpdated sender assetId amount]\<rparr>"

text \<open>
  \<open>set(assetId, amount)\<close>; the first argument of the model is \<open>msg.sender\<close>. (The name \<open>set\<close>
  is taken by the HOL constant for the elements of a list, hence the suffix.)
\<close>

definition set_one :: "address \<Rightarrow> bytes32 \<Rightarrow> uint128 \<Rightarrow> registry \<Rightarrow> failure + registry" where
  "set_one sender assetId amount s = Inr (store_amount sender assetId amount s)"

text \<open>
  The loop of \<open>setMany\<close>, with its counter \<open>i\<close>. \<open>assetIds[i]\<close> is read under the loop's own
  bound; \<open>amounts[i]\<close> is a checked access that panics outside \<open>amounts\<close>. The counter is a
  \<open>uint256\<close> that never exceeds the length of a calldata array, so it is a \<open>nat\<close> here.
\<close>

function setMany_loop ::
  "address \<Rightarrow> bytes32 list \<Rightarrow> uint128 list \<Rightarrow> nat \<Rightarrow> registry \<Rightarrow> failure + registry"
where
  "setMany_loop sender assetIds amounts i s =
     (if i < length assetIds then
        (if i < length amounts then
           setMany_loop sender assetIds amounts (i + 1)
             (store_amount sender (assetIds ! i) (amounts ! i) s)
         else Inl (Panic 0x32))
      else Inr s)"
  by pat_completeness auto
termination
  by (relation "measure (\<lambda>(sender, assetIds, amounts, i, s). length assetIds - i)") auto

declare setMany_loop.simps [simp del]

definition setMany ::
  "address \<Rightarrow> bytes32 list \<Rightarrow> uint128 list \<Rightarrow> registry \<Rightarrow> failure + registry"
where
  "setMany sender assetIds amounts s =
     (if length assetIds \<noteq> length amounts then Inl (Revert ''Length mismatch'')
      else
        (case setMany_loop sender assetIds amounts 0 s of
           Inl e \<Rightarrow> Inl e
         | Inr s' \<Rightarrow>
             Inr (s'\<lparr>events := events s' @
                       [AssetsBatchUpdated sender (of_nat (length assetIds))]\<rparr>)))"

text \<open>
  \<open>getMany(owner, assetIds)\<close> is a \<open>view\<close> function: it takes no caller and returns no state.
  \<open>amounts\<close> starts as \<open>new uint128[](assetIds.length)\<close>, all zero, and the loop assigns its
  positions one by one; \<open>amounts[i]\<close> is again a checked access.
\<close>

function getMany_loop ::
  "address \<Rightarrow> bytes32 list \<Rightarrow> nat \<Rightarrow> uint128 list \<Rightarrow> registry \<Rightarrow> failure + uint128 list"
where
  "getMany_loop owner assetIds i amounts s =
     (if i < length assetIds then
        (if i < length amounts then
           getMany_loop owner assetIds (i + 1)
             (amounts[i := amountOf s owner (assetIds ! i)]) s
         else Inl (Panic 0x32))
      else Inr amounts)"
  by pat_completeness auto
termination
  by (relation "measure (\<lambda>(owner, assetIds, i, amounts, s). length assetIds - i)") auto

declare getMany_loop.simps [simp del]

definition getMany :: "address \<Rightarrow> bytes32 list \<Rightarrow> registry \<Rightarrow> failure + uint128 list" where
  "getMany owner assetIds s =
     getMany_loop owner assetIds 0 (replicate (length assetIds) 0) s"

text \<open>
  A transaction is all or nothing on the chain: a call that fails leaves the storage and
  the log as they were before it. \<open>transact\<close> gives the contract's state after a call.
\<close>

definition transact :: "(registry \<Rightarrow> failure + registry) \<Rightarrow> registry \<Rightarrow> registry" where
  "transact f s = (case f s of Inl _ \<Rightarrow> s | Inr s' \<Rightarrow> s')"

text \<open>
  The contract's history is the sequence of state-changing calls made to it since its
  deployment, each with its caller.
\<close>

datatype call =
    Set address bytes32 uint128
  | SetMany address "bytes32 list" "uint128 list"

fun exec :: "call \<Rightarrow> registry \<Rightarrow> registry" where
  "exec (Set sender assetId amount) s = transact (set_one sender assetId amount) s"
| "exec (SetMany sender assetIds amounts) s = transact (setMany sender assetIds amounts) s"

fun run :: "call list \<Rightarrow> registry \<Rightarrow> registry" where
  "run [] s = s"
| "run (c # cs) s = run cs (exec c s)"

text \<open>
  The (owner, identifier) pairs that a call writes when it succeeds; a \<open>setMany\<close> whose
  lengths differ writes nothing.
\<close>

fun writes :: "call \<Rightarrow> (address \<times> bytes32) list" where
  "writes (Set sender assetId amount) = [(sender, assetId)]"
| "writes (SetMany sender assetIds amounts) =
     (if length assetIds = length amounts then map (Pair sender) assetIds else [])"

definition written :: "call list \<Rightarrow> (address \<times> bytes32) list" where
  "written cs = concat (map writes cs)"

text \<open>
  The amount that a batch leaves for an identifier: that of its last occurrence in the
  batch.
\<close>

definition last_written :: "bytes32 list \<Rightarrow> uint128 list \<Rightarrow> bytes32 \<Rightarrow> uint128 option" where
  "last_written assetIds amounts a = map_of (rev (zip assetIds amounts)) a"

section \<open>JavaScript values\<close>

text \<open>
  A JavaScript number is an IEEE double: a finite value, one of the two infinities, or
  NaN. A finite double is represented by the real number it denotes (the two zeros are
  not told apart). The result of an operation on finite doubles is its exact result
  rounded to a double, or to an infinity when it is out of range; the rounding \<open>rnd\<close> is a
  parameter of every definition that computes with numbers, so that what is proved holds
  for every rounding. On an exact result that is itself a double the rounding of IEEE is
  the identity; where a theorem needs that at some value, it says so in a hypothesis.
\<close>

datatype jsnum = Fin real | PosInf | NegInf | NaN

fun isFinite :: "jsnum \<Rightarrow> bool" where
  "isFinite (Fin _) = True"
| "isFinite _ = False"

fun js_add :: "(real \<Rightarrow> jsnum) \<Rightarrow> jsnum \<Rightarrow> jsnum \<Rightarrow> jsnum" where
  "js_add rnd NaN _ = NaN"
| "js_add rnd _ NaN = NaN"
| "js_add rnd PosInf NegInf = NaN"
| "js_add rnd NegInf PosInf = NaN"
| "js_add rnd PosInf _ = PosInf"
| "js_add rnd _ PosInf = PosInf"
| "js_add rnd NegInf _ = NegInf"
| "js_add rnd _ NegInf = NegInf"
| "js_add rnd (Fin a) (Fin b) = rnd (a + b)"

text \<open>The product of an infinity and a finite number: NaN at zero, else by the signs.\<close>

definition inf_times :: "bool \<Rightarrow> real \<Rightarrow> jsnum" where
  "inf_times positive a =
     (if a = 0 then NaN else if (0 < a) = positive then PosInf else NegInf)"

fun js_mul :: "(real \<Rightarrow> jsnum) \<Rightarrow> jsnum \<Rightarrow> jsnum \<Rightarrow> jsnum" where
  "js_mul rnd NaN _ = NaN"
| "js_mul rnd _ NaN = NaN"
| "js_mul rnd (Fin a) (Fin b) = rnd (a * b)"
| "js_mul rnd (Fin a) PosInf = inf_times True a"
| "js_mul rnd (Fin a) NegInf = inf_times False a"
| "js_mul rnd PosInf (Fin b) = inf_times True b"
| "js_mul rnd NegInf (Fin b) = inf_times False b"
| "js_mul rnd PosInf PosInf = PosInf"
| "js_mul rnd NegInf NegInf = PosInf"
| "js_mul rnd PosInf NegInf = NegInf"
| "js_mul rnd NegInf PosInf = NegInf"

text \<open>
  A string is the sequence of the bytes of its UTF-8 encoding, so a character of the
  ASCII range is one \<open>char\<close>. \<open>String.prototype.trim\<close> strips white space at both ends; the
  white space of the ASCII range is modelled (tab, line feed, vertical tab, form feed,
  carriage return and space), the other Unicode spaces are not.
\<close>

definition is_space :: "char \<Rightarrow> bool" where
  "is_space c = (c \<in> set [CHR 0x09, CHR 0x0A, CHR 0x0B, CHR 0x0C, CHR 0x0D, CHR '' ''])"

definition trim :: "string \<Rightarrow> string" where
  "trim s = rev (dropWhile is_space (rev (dropWhile is_space s)))"

text \<open>\<open>s.split(",")\<close>: the pieces between the commas; the empty string gives one empty piece.\<close>

fun split_comma :: "string \<Rightarrow> string list" where
  "split_comma [] = [[]]"
| "split_comma (c # cs) =
     (if c = CHR '','' then [] # split_comma cs
      else (case split_comma cs of
              [] \<Rightarrow> [[c]]
            | piece # pieces \<Rightarrow> (c # piece) # pieces))"

text \<open>\<open>xs.join(",")\<close>.\<close>

fun join_comma :: "string list \<Rightarrow> string" where
  "join_comma [] = []"
| "join_comma [x] = x"
| "join_comma (x # y # ys) = x @ CHR '','' # join_comma (y # ys)"

text \<open>\<open>s.padStart(n, c)\<close> for a pad \<open>c\<close> of one character.\<close>

definition padStart :: "nat \<Rightarrow> char \<Rightarrow> string \<Rightarrow> string" where
  "padStart n c s = replicate (n - length s) c @ s"

text \<open>The digits of a natural number: in base ten, and in base sixteen in either case.\<close>

definition digit :: "string \<Rightarrow> nat \<Rightarrow> char" where
  "digit alphabet d = alphabet ! d"

fun show_nat :: "nat \<Rightarrow> string" where
  "show_nat n =
     (if n < 10 then [digit ''0123456789'' n]
      else show_nat (n div 10) @ [digit ''0123456789'' (n mod 10)])"

declare show_nat.simps [simp del]

fun toString16 :: "nat \<Rightarrow> string" where
  "toString16 n =
     (if n < 16 then [digit ''0123456789abcdef'' n]
      else toString16 (n div 16) @ [digit ''0123456789abcdef'' (n mod 16)])"

declare toString16.simps [simp del]

text \<open>
  \<open>encodeURIComponent\<close> keeps the letters, the digits and \<open>- _ . ! ~ * ' ( )\<close> and writes
  every other byte of the UTF-8 encoding as \<open>%\<close> and two upper-case hexadecimal digits.
\<close>

definition unreserved :: "char \<Rightarrow> bool" where
  "unreserved c =
     (c \<in> set (''ABCDEFGHIJKLMNOPQRSTUVWXYZabcdefghijklmnopqrstuvwxyz0123456789'' @
               [CHR ''-'', CHR ''_'', CHR ''.'', CHR ''!'', CHR ''~'', CHR ''*'', CHR 0x27,
                CHR ''('', CHR '')'']))"

definition percent :: "char \<Rightarrow> string" where
  "percent c =
     (if unreserved c then [c]
      else [CHR ''%'', digit ''0123456789ABCDEF'' (of_char c div 16),
            digit ''0123456789ABCDEF'' (of_char c mod 16)])"

definition encodeURIComponent :: "string \<Rightarrow> string" where
  "encodeURIComponent s = concat (map percent s)"

text \<open>
  A value parsed from JSON. An object is an association list in which the first binding
  of a key is the key's value; \<open>undefined\<close>, which is not a JSON value, is \<open>None\<close> where a
  property is read.
\<close>

datatype json =
    JNull
  | JBool bool
  | JNum jsnum
  | JStr string
  | JArr "json list"
  | JObj "(string \<times> json) list"

text \<open>Truthiness, as \<open>&&\<close> and \<open>if\<close> test it.\<close>

fun truthy :: "json \<Rightarrow> bool" where
  "truthy JNull = False"
| "truthy (JBool b) = b"
| "truthy (JNum n) = (n \<noteq> Fin 0 \<and> n \<noteq> NaN)"
| "truthy (JStr s) = (s \<noteq> [])"
| "truthy (JArr _) = True"
| "truthy (JObj _) = True"

text \<open>
  \<open>v.name\<close> and \<open>v?.name\<close> for the names \<open>coins\<close>, \<open>symbol\<close> and \<open>price\<close>, which no
  prototype defines: the own property of an object, and \<open>undefined\<close> on every other value
  (\<open>null.name\<close> would throw; the source reads a property of a possibly null value only
  behind \<open>&&\<close> or \<open>?.\<close>).
\<close>

fun property :: "json \<Rightarrow> string \<Rightarrow> json option" where
  "property (JObj kvs) name = map_of kvs name"
| "property _ name = None"

text \<open>
  The number of UTF-16 code units of a string, which is what JavaScript counts: one for
  each character of one to three bytes, two for each of four bytes.
\<close>

definition utf16_length :: "string \<Rightarrow> nat" where
  "utf16_length s =
     length (filter (\<lambda>c. (of_char c :: nat) div 64 \<noteq> 2) s) +
     length (filter (\<lambda>c. 240 \<le> (of_char c :: nat)) s)"

text \<open>
  \<open>Object.keys(v)\<close> for a truthy value: the keys of an object, the indices of an array
  and of a string, and nothing for a number or a boolean.
\<close>

fun keys :: "json \<Rightarrow> string list" where
  "keys (JObj kvs) = remdups (map fst kvs)"
| "keys (JArr xs) = map show_nat [0..<length xs]"
| "keys (JStr s) = map show_nat [0..<utf16_length s]"
| "keys _ = []"

text \<open>
  \<open>v[key]\<close> for a key that \<open>Object.keys(v)\<close> has returned; \<open>None\<close> stands for a value
  without properties of its own (a character of a string).
\<close>

fun element :: "json \<Rightarrow> string \<Rightarrow> json option" where
  "element (JObj kvs) key = map_of kvs key"
| "element (JArr xs) key =
     (case filter (\<lambda>i. show_nat i = key) [0..<length xs] of
        [] \<Rightarrow> None
      | i # _ \<Rightarrow> Some (xs ! i))"
| "element _ key = None"

text \<open>\<open>v[key]?.name\<close>.\<close>

definition entry_field :: "json \<Rightarrow> string \<Rightarrow> string \<Rightarrow> json option" where
  "entry_field v key name = (case element v key of None \<Rightarrow> None | Some entry \<Rightarrow> property entry name)"

text \<open>
  What is thrown and caught: the handler of the proxy, and that of the view, read the
  message of an \<open>Error\<close> and write \<open>Unknown error\<close> for anything else.
\<close>

datatype thrown = Error string | Other

definition message :: "thrown \<Rightarrow> string" where
  "message err = (case err of Error m \<Rightarrow> m | Other \<Rightarrow> ''Unknown error'')"

text \<open>
  \<open>Number(x ?? 0)\<close> for a property \<open>x\<close>. \<open>undefined\<close> and \<open>null\<close> give way to 0; a number is
  itself and a boolean is 0 or 1. A string, an array or an object goes through
  JavaScript's conversion to a primitive and its numeric grammar, which may also throw
  (an object whose \<open>toString\<close> and \<open>valueOf\<close> are not functions): that conversion is the
  parameter \<open>toNumber\<close>.
\<close>

fun Number_or_zero :: "(json \<Rightarrow> thrown + jsnum) \<Rightarrow> json option \<Rightarrow> thrown + jsnum" where
  "Number_or_zero toNumber None = Inr (Fin 0)"
| "Number_or_zero toNumber (Some JNull) = Inr (Fin 0)"
| "Number_or_zero toNumber (Some (JNum n)) = Inr n"
| "Number_or_zero toNumber (Some (JBool b)) = Inr (Fin (if b then 1 else 0))"
| "Number_or_zero toNumber (Some v) = toNumber v"

section \<open>The price proxy (src/app/api/prices/route.ts)\<close>

definition DEFAULT_IDS :: "string list" where
  "DEFAULT_IDS =
     [''coingecko:bitcoin'', ''coingecko:ethereum'', ''coingecko:solana'',
      ''coingecko:base-ecosystem-token'', ''coingecko:chainlink'']"

text \<open>An entry of the normalized output, \<open>{ symbol?, price }\<close>, and the mapping of them.\<close>

record quote =
  symbol :: "json option"
  price :: jsnum

type_synonym PriceMap = "string \<rightharpoonup> quote"

text \<open>
  What \<open>fetch\<close> does with a URL: it rejects, or it resolves to a response with a status,
  whose \<open>json()\<close> in turn rejects or resolves to the parsed body. \<open>res.ok\<close> is true for the
  statuses 200 to 299.
\<close>

datatype json_result = JsonFails thrown | Json json

datatype fetch_result = Rejected thrown | Responded nat json_result

definition ok :: "nat \<Rightarrow> bool" where
  "ok st = (200 \<le> st \<and> st \<le> 299)"

text \<open>What the handler returns through \<open>NextResponse.json\<close>.\<close>

datatype payload = ErrorBody string | PricesBody PriceMap nat

record response =
  status :: nat
  cache_control :: "string option"
  body :: payload

text \<open>
  The loop over \<open>Object.keys(json.coins)\<close>. Assigning \<open>prices[key]\<close> adds or replaces the
  entry of \<open>key\<close>, except for the key \<open>__proto__\<close>: on an object literal that assignment
  sets the prototype and adds no entry. A conversion that throws leaves the loop.
\<close>

fun normalize_loop ::
  "(json \<Rightarrow> thrown + jsnum) \<Rightarrow> json \<Rightarrow> string list \<Rightarrow> PriceMap \<Rightarrow> thrown + PriceMap"
where
  "normalize_loop toNumber coins [] prices = Inr prices"
| "normalize_loop toNumber coins (key # rest) prices =
     (case Number_or_zero toNumber (entry_field coins key ''price'') of
        Inl err \<Rightarrow> Inl err
      | Inr p \<Rightarrow>
          normalize_loop toNumber coins rest
            (if key = ''__proto__'' then prices
             else prices(key \<mapsto> \<lparr>symbol = entry_field coins key ''symbol'', price = p\<rparr>)))"

text \<open>\<open>if (json && json.coins) { ... }\<close> on the empty \<open>prices\<close>.\<close>

definition normalize :: "(json \<Rightarrow> thrown + jsnum) \<Rightarrow> json \<Rightarrow> thrown + PriceMap" where
  "normalize toNumber json =
     (if truthy json then
        (case property json ''coins'' of
           None \<Rightarrow> Inr Map.empty
         | Some coins \<Rightarrow>
             if truthy coins then normalize_loop toNumber coins (keys coins) Map.empty
             else Inr Map.empty)
      else Inr Map.empty)"

text \<open>The \<open>catch\<close> branch.\<close>

definition internal_error :: "thrown \<Rightarrow> response" where
  "internal_error err = \<lparr>status = 500, cache_control = None, body = ErrorBody (message err)\<rparr>"

text \<open>
  The handler. Its inputs are the value of the query parameter \<open>ids\<close> (\<open>None\<close> when the
  request has none), the behaviour of \<open>fetch\<close>, the clock \<open>now\<close> read by \<open>Date.now()\<close> and
  the conversion \<open>toNumber\<close> above. The URL of a request that has reached the handler
  parses, so that \<open>new URL(request.url)\<close> is no source of failure; everything else that
  the \<open>try\<close> block can throw is a branch below.
\<close>

definition request_ids :: "string option \<Rightarrow> string list" where
  "request_ids idsParam =
     map trim (case idsParam of
                 None \<Rightarrow> DEFAULT_IDS
               | Some p \<Rightarrow> if p \<noteq> [] then split_comma p else DEFAULT_IDS)"

definition upstream_url :: "string list \<Rightarrow> string" where
  "upstream_url ids =
     ''https://coins.llama.fi/prices/current/'' @ encodeURIComponent (join_comma ids) @
     ''?searchWidth=8h''"

definition GET ::
  "(json \<Rightarrow> thrown + jsnum) \<Rightarrow> (string \<Rightarrow> fetch_result) \<Rightarrow> nat \<Rightarrow> string option \<Rightarrow> response"
where
  "GET toNumber fetch now idsParam =
     (case fetch (upstream_url (request_ids idsParam)) of
        Rejected err \<Rightarrow> internal_error err
      | Responded st res_json \<Rightarrow>
          if \<not> ok st then
            \<lparr>status = 502, cache_control = None,
             body = ErrorBody (''Upstream error: '' @ show_nat st)\<rparr>
          else
            (case res_json of
               JsonFails err \<Rightarrow> internal_error err
             | Json json \<Rightarrow>
                 (case normalize toNumber json of
                    Inl err \<Rightarrow> internal_error err
                  | Inr prices \<Rightarrow>
                      \<lparr>status = 200, cache_control = Some ''no-store'',
                       body = PricesBody prices now\<rparr>)))"

section \<open>The portfolio view (src/lib/portfolio-abi.ts)\<close>

text \<open>
  A holding, with the fields of the type \<open>Holding\<close> (prefixed, since \<open>id\<close> is the identity
  function of HOL).
\<close>

record holding =
  h_id :: string
  h_symbol :: "string option"
  h_name :: "string option"
  h_amount :: jsnum

text \<open>
  The price mapping of the view, its type \<open>PriceMap\<close> (the name stands for the proxy's
  mapping above). The type declares \<open>{ symbol?: string; price: number }\<close>, but the mapping
  is the \<open>prices\<close> of a parsed JSON body, cast to the type: there a price is a number, or
  it is \<open>null\<close>, which is what \<open>NextResponse.json\<close> writes for NaN and the infinities, or
  it is missing. The view reads a price through \<open>?? 0\<close>, which provides for both, so the
  price of a quote that the view holds is optional: \<open>None\<close> is \<open>null\<close> or \<open>undefined\<close>.
\<close>

record received_quote =
  q_symbol :: "string option"
  q_price :: "jsnum option"

type_synonym ViewPriceMap = "string \<rightharpoonup> received_quote"

subsection \<open>toAssetId\<close>

text \<open>
  \<open>new TextEncoder().encode(id)\<close> is the UTF-8 encoding of \<open>id\<close>, which is the string itself
  here. In the loop \<open>hash = ((hash << 5) + hash) ^ enc[i]\<close> the shift and the exclusive or
  work on the 32-bit integer of their operands and the sum between them is exact, so
  \<open>hash\<close> is kept as its 32 bits: a \<open>32 word\<close>, on which \<open>+\<close> wraps around. \<open>hash >>> 0\<close>
  reads the 32 bits as an unsigned number (\<open>unat\<close>).
\<close>

definition djb2_step :: "32 word \<Rightarrow> char \<Rightarrow> 32 word" where
  "djb2_step hash c = (push_bit 5 hash + hash) XOR word_of_nat (of_char c)"

definition djb2 :: "string \<Rightarrow> 32 word" where
  "djb2 enc = foldl djb2_step 5381 enc"

definition toAssetId :: "string \<Rightarrow> string" where
  "toAssetId ident =
     (let hex = padStart 8 CHR ''0'' (toString16 (unat (djb2 ident)))
      in ''0x'' @ padStart 64 CHR ''0'' hex)"

text \<open>
  The number that a string of hexadecimal digits denotes, and the \<open>bytes32\<close> that the
  contract receives for an identifier \<open>0x...\<close> of 64 digits.
\<close>

definition hex_digit_value :: "char \<Rightarrow> nat" where
  "hex_digit_value c =
     (let n = of_char c
      in if 48 \<le> n \<and> n \<le> 57 then n - 48
         else if 97 \<le> n \<and> n \<le> 102 then n - 87
         else n - 55)"

definition hex_value :: "string \<Rightarrow> nat" where
  "hex_value s = foldl (\<lambda>n c. 16 * n + hex_digit_value c) 0 s"

definition bytes32_of :: "string \<Rightarrow> bytes32" where
  "bytes32_of s = word_of_nat (hex_value (drop 2 s))"

subsection \<open>Valuation and the edits of the list\<close>

text \<open>
  \<open>prices[h.id]?.price ?? 0\<close>: zero when the mapping has no quote for the identifier
  (\<open>?.\<close> gives \<open>undefined\<close>), and zero when the quote is there and its price is \<open>null\<close> or
  \<open>undefined\<close>; otherwise the price of the quote.
\<close>

definition price_or_zero :: "ViewPriceMap \<Rightarrow> string \<Rightarrow> jsnum" where
  "price_or_zero prices ident =
     (case prices ident of
        None \<Rightarrow> Fin 0
      | Some q \<Rightarrow> (case q_price q of None \<Rightarrow> Fin 0 | Some p \<Rightarrow> p))"

text \<open>
  \<open>totalUsd\<close>: the \<open>reduce\<close> over the holdings, from 0, with
  \<open>p = prices[h.id]?.price ?? 0\<close> and \<open>sum + h.amount * p\<close>.
\<close>

definition totalUsd :: "(real \<Rightarrow> jsnum) \<Rightarrow> holding list \<Rightarrow> ViewPriceMap \<Rightarrow> jsnum" where
  "totalUsd rnd holdings prices =
     foldl (\<lambda>sum h. let p = price_or_zero prices (h_id h)
                     in js_add rnd sum (js_mul rnd (h_amount h) p))
       (Fin 0) holdings"

text \<open>
  What the properties of the total use of the rounding of IEEE: zero is a double, and
  the rounding of a result, when it is finite, is a double, which is its own rounding.
\<close>

definition rounds_to_doubles :: "(real \<Rightarrow> jsnum) \<Rightarrow> bool" where
  "rounds_to_doubles rnd = (rnd 0 = Fin 0 \<and> (\<forall>x y. rnd x = Fin y \<longrightarrow> rnd y = Fin y))"

text \<open>
  What the view receives for a price that the proxy has put into its answer:
  \<open>NextResponse.json\<close> writes a finite number as a numeral that reads back as the same
  number, and NaN and the infinities as \<open>null\<close>.
\<close>

definition received_price :: "jsnum \<Rightarrow> jsnum option" where
  "received_price n = (if isFinite n then Some n else None)"

text \<open>
  \<open>updateAmount(index, nextAmount)\<close>, as the function from the previous list to the next
  that it passes to \<open>setHoldings\<close>. The rows are rendered from the list, so the index of an
  edited row lies in it; past the end the JavaScript assignment would grow the array by
  an entry without identifier (after holes), which is outside this model: \<open>None\<close>.
\<close>

definition updateAmount :: "nat \<Rightarrow> jsnum \<Rightarrow> holding list \<Rightarrow> holding list option" where
  "updateAmount index nextAmount prev =
     (if index < length prev then
        Some (prev[index := (prev ! index)
                \<lparr>h_amount := (if isFinite nextAmount then nextAmount else Fin 0)\<rparr>])
      else None)"

text \<open>\<open>removeRow(index)\<close>: \<open>prev.filter((_, i) => i !== index)\<close>.\<close>

definition removeRow :: "nat \<Rightarrow> holding list \<Rightarrow> holding list" where
  "removeRow index prev =
     map snd (filter (\<lambda>(i, h). i \<noteq> index) (zip [0..<length prev] prev))"

subsection \<open>Loading the amounts stored on the chain\<close>

text \<open>
  \<open>Number(formatUnits(v, 18))\<close> for a \<open>bigint\<close> \<open>v\<close>: \<open>formatUnits\<close> writes \<open>v / 10^18\<close> as an
  exact decimal numeral and \<open>Number\<close> reads a numeral as the double nearest to its value.
\<close>

definition fromFixed18 :: "(real \<Rightarrow> jsnum) \<Rightarrow> int \<Rightarrow> jsnum" where
  "fromFixed18 rnd v = rnd (real_of_int v / 10 ^ 18)"

text \<open>
  The effect on \<open>chainAmounts\<close>, as the function from the previous list to the next;
  \<open>chainAmounts\<close> is \<open>undefined\<close> (\<open>None\<close>) until the read has returned, and
  \<open>chainAmounts[i] ?? 0n\<close> is zero past its end.
\<close>

definition reconcile :: "(real \<Rightarrow> jsnum) \<Rightarrow> int list option \<Rightarrow> holding list \<Rightarrow> holding list" where
  "reconcile rnd chainAmounts prev =
     (case chainAmounts of
        None \<Rightarrow> prev
      | Some stored \<Rightarrow>
          map (\<lambda>(i, h). h\<lparr>h_amount :=
                  fromFixed18 rnd (if i < length stored then stored ! i else 0)\<rparr>)
            (zip [0..<length prev] prev))"

subsection \<open>Polling the prices\<close>

text \<open>The state that the polling writes: \<open>prices\<close>, \<open>loading\<close> and \<open>error\<close>.\<close>

record view =
  prices :: ViewPriceMap
  loading :: bool
  error :: "string option"

text \<open>
  The response of \<open>/api/prices\<close> as \<open>fetchPrices\<close> reads it: \<open>fetch\<close> rejects, or resolves
  with a status; \<open>res.json()\<close> then rejects, or resolves to \<open>data\<close>, of which \<open>data.prices\<close>
  is read (\<open>None\<close> when it is missing, and \<open>data.prices || {}\<close> is then empty).
\<close>

datatype data_result = DataFails thrown | Data "ViewPriceMap option"

datatype poll_result = PollRejected thrown | PollResponded nat data_result

text \<open>
  \<open>fetchPrices\<close> runs in two parts. Up to its first \<open>await\<close> it sets \<open>loading\<close> and clears
  \<open>error\<close>. When the response is there it continues: what the \<open>try\<close> block throws is
  caught, and every write of the continuation is under \<open>if (!ignore)\<close>, with the value
  that the flag \<open>ignore\<close> of its effect has at that time.
\<close>

definition fetchPrices_start :: "view \<Rightarrow> view" where
  "fetchPrices_start v = v\<lparr>loading := True, error := None\<rparr>"

definition fetchPrices_try :: "poll_result \<Rightarrow> thrown + ViewPriceMap" where
  "fetchPrices_try res =
     (case res of
        PollRejected err \<Rightarrow> Inl err
      | PollResponded st res_json \<Rightarrow>
          if \<not> ok st then Inl (Error (''Price API error: '' @ show_nat st))
          else (case res_json of
                  DataFails err \<Rightarrow> Inl err
                | Data None \<Rightarrow> Inr Map.empty
                | Data (Some p) \<Rightarrow> Inr p))"

definition fetchPrices_settle :: "bool \<Rightarrow> poll_result \<Rightarrow> view \<Rightarrow> view" where
  "fetchPrices_settle ignore res v =
     (let v1 = (case fetchPrices_try res of
                  Inr p \<Rightarrow> if \<not> ignore then v\<lparr>prices := p\<rparr> else v
                | Inl err \<Rightarrow> if \<not> ignore then v\<lparr>error := Some (message err)\<rparr> else v)
      in if \<not> ignore then v1\<lparr>loading := False\<rparr> else v1)"

text \<open>
  One run of the effect: its flag \<open>ignore\<close>, whether its interval is still set, and the
  \<open>ids\<close> it closed over. The component keeps every run it has made, the latest last, and
  the polls in flight, each with the number of the run that started it.
\<close>

record effect =
  ignore :: bool
  interval :: bool
  ids :: string

record component =
  shown :: view
  effects :: "effect list"
  in_flight :: "nat list"

text \<open>\<open>if (ids.length) fetchPrices()\<close> in the run numbered \<open>k\<close>.\<close>

definition poll :: "nat \<Rightarrow> component \<Rightarrow> component" where
  "poll k c =
     (if ids (effects c ! k) \<noteq> [] then
        c\<lparr>shown := fetchPrices_start (shown c), in_flight := in_flight c @ [k]\<rparr>
      else c)"

text \<open>The body of the effect, run for \<open>ids\<close>, and the cleanup it returns.\<close>

definition run_effect :: "string \<Rightarrow> component \<Rightarrow> component" where
  "run_effect new_ids c =
     poll (length (effects c))
       (c\<lparr>effects := effects c @ [\<lparr>ignore = False, interval = True, ids = new_ids\<rparr>]\<rparr>)"

definition cleanup :: "nat \<Rightarrow> component \<Rightarrow> component" where
  "cleanup k c =
     c\<lparr>effects := (effects c)[k := (effects c ! k)\<lparr>ignore := True, interval := False\<rparr>]\<rparr>"

text \<open>
  What happens to the component, one event at a time (JavaScript runs one callback to
  its end before the next):
  \<^item> \<open>IdsChanged\<close>: the holdings have changed and \<open>ids\<close> with them. By the contract of
    \<open>useEffect\<close> with the dependency \<open>[ids]\<close>, React calls the cleanup of the latest run
    and runs the effect again; with \<open>ids\<close> unchanged it does neither.
  \<^item> \<open>Tick k\<close>: the interval of run \<open>k\<close> fires; a cleared interval does not fire.
  \<^item> \<open>Settled j res\<close>: the poll at position \<open>j\<close> of those in flight gets its response.
\<close>

datatype happening = IdsChanged string | Tick nat | Settled nat poll_result

definition mount :: "string \<Rightarrow> component" where
  "mount ids0 =
     run_effect ids0
       \<lparr>shown = \<lparr>prices = Map.empty, loading = False, error = None\<rparr>,
        effects = [], in_flight = []\<rparr>"

fun happen :: "happening \<Rightarrow> component \<Rightarrow> component" where
  "happen (IdsChanged new_ids) c =
     (if effects c \<noteq> [] \<and> ids (last (effects c)) = new_ids then c
      else run_effect new_ids
             (if effects c = [] then c else cleanup (length (effects c) - 1) c))"
| "happen (Tick k) c =
     (if k < length (effects c) \<and> interval (effects c ! k) then poll k c else c)"
| "happen (Settled j res) c =
     (if j < length (in_flight c) then
        c\<lparr>shown := fetchPrices_settle (ignore (effects c ! (in_flight c ! j))) res (shown c),
          in_flight := take j (in_flight c) @ drop (j + 1) (in_flight c)\<rparr>
      else c)"

fun happen_all :: "happening list \<Rightarrow> component \<Rightarrow> component" where
  "happen_all [] c = c"
| "happen_all (e # es) c = happen_all es (happen e c)"

text \<open>
  What holds of the component at every moment: it has a latest run, the flag \<open>ignore\<close> of
  every earlier run is set, and every poll in flight belongs to a run that was made.
\<close>

definition earlier_runs_ignored :: "component \<Rightarrow> bool" where
  "earlier_runs_ignored c =
     (effects c \<noteq> [] \<and>
      (\<forall>k < length (effects c) - 1. ignore (effects c ! k)) \<and>
      (\<forall>k \<in> set (in_flight c). k < length (effects c)))"

section \<open>Inputs of the worked examples\<close>

text \<open>
  The selectors of a response with prices, an upstream that answers every URL with the
  status 200 and a quote for \<open>a\<close> only, and a conversion that makes NaN of every string,
  array and object.
\<close>

definition prices_of :: "response \<Rightarrow> PriceMap" where
  "prices_of r = (case body r of PricesBody pm ts \<Rightarrow> pm | ErrorBody m \<Rightarrow> Map.empty)"

definition all_NaN :: "json \<Rightarrow> thrown + jsnum" where
  "all_NaN v = Inr NaN"

definition quote_a_only :: json where
  "quote_a_only = JObj [(''coins'', JObj [(''a'', JObj [(''price'', JNum (Fin 1))])])]"

definition upstream_a_only :: "string \<Rightarrow> fetch_result" where
  "upstream_a_only url = Responded 200 (Json quote_a_only)"

text \<open>An upstream that quotes \<open>a\<close> with a price and a symbol, and \<open>b\<close> with neither.\<close>

definition coins_a_b :: json where
  "coins_a_b =
     JObj [(''a'', JObj [(''symbol'', JStr ''A''), (''price'', JNum (Fin 3))]), (''b'', JObj [])]"

definition upstream_a_b :: "string \<Rightarrow> fetch_result" where
  "upstream_a_b url = Responded 200 (Json (JObj [(''coins'', coins_a_b)]))"

text \<open>Upstreams that fail: with the status 503, by rejecting, and with a body that is no JSON.\<close>

definition upstream_503 :: "string \<Rightarrow> fetch_result" where
  "upstream_503 url = Responded 503 (JsonFails Other)"

definition upstream_down :: "string \<Rightarrow> fetch_result" where
  "upstream_down url = Rejected (Error ''fetch failed'')"

definition upstream_garbled :: "string \<Rightarrow> fetch_result" where
  "upstream_garbled url = Responded 200 (JsonFails (Error ''Unexpected token''))"

text \<open>
  Holdings of 2 units of \<open>x\<close> and of 5 units of \<open>y\<close>, and price mappings that quote \<open>x\<close>
  at 3, with \<open>y\<close> at 4 beside it, and with a price that is \<open>null\<close>.
\<close>

definition holding_x :: holding where
  "holding_x = \<lparr>h_id = ''x'', h_symbol = None, h_name = None, h_amount = Fin 2\<rparr>"

definition holding_y :: holding where
  "holding_y = \<lparr>h_id = ''y'', h_symbol = None, h_name = None, h_amount = Fin 5\<rparr>"

definition prices_x_3 :: ViewPriceMap where
  "prices_x_3 = [''x'' \<mapsto> \<lparr>q_symbol = None, q_price = Some (Fin 3)\<rparr>]"

definition prices_x_3_y_4 :: ViewPriceMap where
  "prices_x_3_y_4 =
     [''x'' \<mapsto> \<lparr>q_symbol = None, q_price = Some (Fin 3)\<rparr>,
      ''y'' \<mapsto> \<lparr>q_symbol = None, q_price = Some (Fin 4)\<rparr>]"

definition prices_x_null :: ViewPriceMap where
  "prices_x_null = [''x'' \<mapsto> \<lparr>q_symbol = None, q_price = None\<rparr>]"

text \<open>The responses of the proxy to the polls for \<open>a\<close> and for \<open>b\<close>.\<close>

definition prices_a :: ViewPriceMap where
  "prices_a = [''a'' \<mapsto> \<lparr>q_symbol = None, q_price = Some (Fin 1)\<rparr>]"

definition prices_b :: ViewPriceMap where
  "prices_b = [''b'' \<mapsto> \<lparr>q_symbol = None, q_price = Some (Fin 2)\<rparr>]"

definition response_a :: poll_result where
  "response_a = PollResponded 200 (Data (Some prices_a))"

definition response_b :: poll_result where
  "response_b = PollResponded 200 (Data (Some prices_b))"

text \<open>
  An upstream whose price for \<open>a\<close> is an object that has no primitive value, and the
  conversion that throws on it as JavaScript does.
\<close>

definition upstream_odd_price :: "string \<Rightarrow> fetch_result" where
  "upstream_odd_price url =
     Responded 200
       (Json (JObj [(''coins'',
          JObj [(''a'', JObj [(''price'', JObj [(''toString'', JNum (Fin 1))])])])]))"

definition no_primitive :: "json \<Rightarrow> thrown + jsnum" where
  "no_primitive v = Inl (Error ''Cannot convert object to primitive value'')"

section \<open>Properties of the registry contract\<close>

subsection \<open>The loops, characterised\<close>

lemma setMany_loop_done:
  "\<not> i < length assetIds \<Longrightarrow> setMany_loop sender assetIds amounts i s = Inr s"
  by (simp add: setMany_loop.simps)

lemma setMany_loop_step:
  "i < length assetIds \<Longrightarrow> i < length amounts \<Longrightarrow>
   setMany_loop sender assetIds amounts i s =
     setMany_loop sender assetIds amounts (i + 1)
       (store_amount sender (assetIds ! i) (amounts ! i) s)"
  by (subst setMany_loop.simps) simp

lemma last_written_drop:
  assumes "i < length assetIds" and "i < length amounts"
  shows "last_written (drop i assetIds) (drop i amounts) a =
        (case last_written (drop (i + 1) assetIds) (drop (i + 1) amounts) a of
           Some v \<Rightarrow> Some v
         | None \<Rightarrow> if a = assetIds ! i then Some (amounts ! i) else None)"
proof -
  have d1: "drop i assetIds = assetIds ! i # drop (i + 1) assetIds"
    using assms by (simp add: Cons_nth_drop_Suc)
  have d2: "drop i amounts = amounts ! i # drop (i + 1) amounts"
    using assms by (simp add: Cons_nth_drop_Suc)
  show ?thesis
    unfolding d1 d2 by (simp add: last_written_def map_add_def split: option.splits)
qed

lemma setMany_loop_amountOf:
  "length amounts = length assetIds \<Longrightarrow>
   \<exists>s'. setMany_loop sender assetIds amounts i s = Inr s' \<and>
        (\<forall>owner a. amountOf s' owner a =
           (if owner = sender then
              (case last_written (drop i assetIds) (drop i amounts) a of
                 Some v \<Rightarrow> v | None \<Rightarrow> amountOf s owner a)
            else amountOf s owner a))"
proof (induction sender assetIds amounts i s rule: setMany_loop.induct)
  case (1 sender assetIds amounts i s)
  show ?case
  proof (cases "i < length assetIds")
    case False
    then show ?thesis
      using "1.prems" by (simp add: setMany_loop_done last_written_def)
  next
    case True
    then have ia: "i < length amounts" using "1.prems" by simp
    let ?s1 = "store_amount sender (assetIds ! i) (amounts ! i) s"
    from "1.IH" [OF True ia "1.prems"]
    obtain s' where run: "setMany_loop sender assetIds amounts (i + 1) ?s1 = Inr s'"
      and rest: "\<And>owner a. amountOf s' owner a =
           (if owner = sender then
              (case last_written (drop (i + 1) assetIds) (drop (i + 1) amounts) a of
                 Some v \<Rightarrow> v | None \<Rightarrow> amountOf ?s1 owner a)
            else amountOf ?s1 owner a)"
      by blast
    have "setMany_loop sender assetIds amounts i s = Inr s'"
      using run by (simp add: setMany_loop_step [OF True ia])
    moreover have "\<forall>owner a. amountOf s' owner a =
           (if owner = sender then
              (case last_written (drop i assetIds) (drop i amounts) a of
                 Some v \<Rightarrow> v | None \<Rightarrow> amountOf s owner a)
            else amountOf s owner a)"
      by (simp add: rest last_written_drop [OF True ia] store_amount_def split: option.splits)
    ultimately show ?thesis by blast
  qed
qed

lemma last_written_None:
  "a \<notin> set assetIds \<Longrightarrow> last_written assetIds amounts a = None"
  by (auto simp: last_written_def map_of_eq_None_iff dest: set_zip_leftD)

lemma last_written_distinct:
  assumes "distinct assetIds" and "length assetIds = length amounts" and "i < length assetIds"
  shows "last_written assetIds amounts (assetIds ! i) = Some (amounts ! i)"
proof -
  have "distinct (map fst (rev (zip assetIds amounts)))"
    using assms by (simp add: rev_map [symmetric])
  moreover have "(assetIds ! i, amounts ! i) \<in> set (rev (zip assetIds amounts))"
    using assms by (auto simp: set_zip)
  ultimately show ?thesis
    unfolding last_written_def by (rule map_of_is_SomeI)
qed

lemma setMany_ok:
  assumes "length assetIds = length amounts"
  shows "\<exists>s'. setMany sender assetIds amounts s = Inr s' \<and>
        (\<forall>owner a. amountOf s' owner a =
           (if owner = sender then
              (case last_written assetIds amounts a of
                 Some v \<Rightarrow> v | None \<Rightarrow> amountOf s owner a)
            else amountOf s owner a))"
proof -
  from setMany_loop_amountOf [of amounts assetIds sender 0 s] assms
  obtain s1 where run: "setMany_loop sender assetIds amounts 0 s = Inr s1"
    and eq: "\<And>owner a. amountOf s1 owner a =
           (if owner = sender then
              (case last_written assetIds amounts a of
                 Some v \<Rightarrow> v | None \<Rightarrow> amountOf s owner a)
            else amountOf s owner a)"
    by auto
  show ?thesis
    using assms run eq by (simp add: setMany_def)
qed

lemma setMany_Inr_length:
  "setMany sender assetIds amounts s = Inr s' \<Longrightarrow> length assetIds = length amounts"
  by (auto simp: setMany_def split: if_splits)

lemma getMany_loop_done:
  "\<not> i < length assetIds \<Longrightarrow> getMany_loop owner assetIds i amounts s = Inr amounts"
  by (simp add: getMany_loop.simps)

lemma getMany_loop_step:
  "i < length assetIds \<Longrightarrow> i < length amounts \<Longrightarrow>
   getMany_loop owner assetIds i amounts s =
     getMany_loop owner assetIds (i + 1) (amounts[i := amountOf s owner (assetIds ! i)]) s"
  by (subst getMany_loop.simps) simp

text \<open>
  The invariant of \<open>getMany\<close>'s loop: the positions below the counter are settled, and
  the others will hold the stored amounts of their identifiers.
\<close>

lemma getMany_loop_eq:
  "length amounts = length assetIds \<Longrightarrow>
   getMany_loop owner assetIds i amounts s =
     Inr (take i amounts @ map (amountOf s owner) (drop i assetIds))"
proof (induction owner assetIds i amounts s rule: getMany_loop.induct)
  case (1 owner assetIds i amounts s)
  show ?case
  proof (cases "i < length assetIds")
    case False
    then show ?thesis
      using "1.prems" by (simp add: getMany_loop_done)
  next
    case True
    then have ia: "i < length amounts" using "1.prems" by simp
    let ?v = "amountOf s owner (assetIds ! i)"
    have "getMany_loop owner assetIds i amounts s =
        getMany_loop owner assetIds (i + 1) (amounts[i := ?v]) s"
      by (rule getMany_loop_step [OF True ia])
    also have "\<dots> = Inr (take (i + 1) (amounts[i := ?v]) @
        map (amountOf s owner) (drop (i + 1) assetIds))"
      using "1.IH" [OF True ia] "1.prems" by simp
    also have "take (i + 1) (amounts[i := ?v]) = take i amounts @ [?v]"
      using ia by (simp add: take_Suc_conv_app_nth)
    also have "(take i amounts @ [?v]) @ map (amountOf s owner) (drop (i + 1) assetIds) =
        take i amounts @ map (amountOf s owner) (drop i assetIds)"
      using True by (simp add: Cons_nth_drop_Suc [symmetric])
    finally show ?thesis .
  qed
qed

lemma getMany_eq: "getMany owner assetIds s = Inr (map (amountOf s owner) assetIds)"
  by (simp add: getMany_def getMany_loop_eq)

subsection \<open>Histories\<close>

lemma exec_frame:
  "(owner, a) \<notin> set (writes c) \<Longrightarrow> amountOf (exec c s) owner a = amountOf s owner a"
proof (cases c)
  case (Set sender assetId amount)
  assume "(owner, a) \<notin> set (writes c)"
  with Set show ?thesis
    by (auto simp: transact_def set_one_def store_amount_def)
next
  case (SetMany sender assetIds amounts)
  assume nw: "(owner, a) \<notin> set (writes c)"
  show ?thesis
  proof (cases "length assetIds = length amounts")
    case False
    then show ?thesis
      using SetMany by (simp add: transact_def setMany_def)
  next
    case True
    from setMany_ok [OF True, of sender s]
    obtain s' where ok: "setMany sender assetIds amounts s = Inr s'"
      and eq: "\<And>owner a. amountOf s' owner a =
           (if owner = sender then
              (case last_written assetIds amounts a of
                 Some v \<Rightarrow> v | None \<Rightarrow> amountOf s owner a)
            else amountOf s owner a)"
      by blast
    have "owner = sender \<Longrightarrow> a \<notin> set assetIds"
      using nw SetMany True by auto
    then have "amountOf s' owner a = amountOf s owner a"
      by (simp add: eq last_written_None)
    then show ?thesis
      using SetMany ok by (simp add: transact_def)
  qed
qed

lemma run_frame:
  "(owner, a) \<notin> set (written cs) \<Longrightarrow> amountOf (run cs s) owner a = amountOf s owner a"
  by (induction cs arbitrary: s) (simp_all add: written_def exec_frame)

subsection \<open>Claims about the contract\<close>

text \<open>
  C1 (as stated): a \<open>setMany\<close> followed by a \<open>getMany\<close> of the same owner and identifiers
  returns exactly the written amounts, for every pair of sequences of equal length. This
  fails when an identifier occurs twice in the batch: the later amount overwrites the
  earlier one, and \<open>getMany\<close> then returns the later amount at both positions. Here the
  caller 1 writes the amounts 1 and 2 for the identifier 7 and reads 2 and 2 back.
\<close>

theorem C1_setMany_getMany_repeated_counterexample:
  "\<not> isl (setMany 1 [7, 7] [1, 2] deployed) \<and>
   getMany 1 [7, 7] (transact (setMany 1 [7, 7] [1, 2]) deployed) = Inr [2, 2] \<and>
   getMany 1 [7, 7] (transact (setMany 1 [7, 7] [1, 2]) deployed) \<noteq> Inr [1, 2]"
proof -
  have len: "length [7, 7 :: bytes32] = length [1, 2 :: uint128]" by simp
  from setMany_ok [OF len, of 1 deployed]
  obtain s' where ok: "setMany 1 [7, 7] [1, 2] deployed = Inr s'"
    and eq: "\<And>a. amountOf s' 1 a =
       (case last_written [7, 7] [1, 2] a of Some v \<Rightarrow> v | None \<Rightarrow> amountOf deployed 1 a)"
    by auto
  have "amountOf s' 1 7 = 2"
    by (simp add: eq last_written_def)
  then have "getMany 1 [7, 7] s' = Inr [2, 2]"
    by (simp add: getMany_eq)
  then show ?thesis
    using ok by (simp add: transact_def)
qed

text \<open>
  C1 (amended): for sequences of equal length the batch write succeeds, and the batch
  read of the writer's amounts for the same identifiers returns, at each position, the
  amount of the last occurrence of that position's identifier in the batch; when the
  identifiers are pairwise distinct this is exactly the written amounts, in order.
\<close>

theorem C1_setMany_getMany_roundtrip:
  assumes "length assetIds = length amounts"
  shows "\<exists>s' r. setMany owner assetIds amounts s = Inr s' \<and>
           getMany owner assetIds s' = Inr r \<and>
           map Some r = map (last_written assetIds amounts) assetIds \<and>
           (distinct assetIds \<longrightarrow> r = amounts)"
proof -
  from setMany_ok [OF assms, of owner s]
  obtain s' where ok: "setMany owner assetIds amounts s = Inr s'"
    and eq: "\<And>a. amountOf s' owner a =
       (case last_written assetIds amounts a of Some v \<Rightarrow> v | None \<Rightarrow> amountOf s owner a)"
    by auto
  let ?r = "map (amountOf s' owner) assetIds"
  have some: "\<exists>v. last_written assetIds amounts a = Some v" if "a \<in> set assetIds" for a
  proof -
    from that assms have "a \<in> fst ` set (rev (zip assetIds amounts))"
      by (simp add: image_image [symmetric] del: set_map) (simp add: map_fst_zip set_map [symmetric] del: set_map)
    then show ?thesis
      unfolding last_written_def by (metis map_of_eq_None_iff not_Some_eq)
  qed
  have m: "map Some ?r = map (last_written assetIds amounts) assetIds"
  proof (rule nth_equalityI)
    show "length (map Some ?r) = length (map (last_written assetIds amounts) assetIds)"
      by simp
  next
    fix i assume "i < length (map Some ?r)"
    then have i: "i < length assetIds" by simp
    then obtain v where "last_written assetIds amounts (assetIds ! i) = Some v"
      using some by force
    then show "map Some ?r ! i = map (last_written assetIds amounts) assetIds ! i"
      using i by (simp add: eq)
  qed
  have d: "?r = amounts" if "distinct assetIds"
  proof (rule nth_equalityI)
    show "length ?r = length amounts" using assms by simp
  next
    fix i assume "i < length ?r"
    then have i: "i < length assetIds" by simp
    show "?r ! i = amounts ! i"
      using i by (simp add: eq last_written_distinct [OF that assms i])
  qed
  show ?thesis
    using ok m d by (auto simp: getMany_eq)
qed

theorem C1_setMany_getMany_roundtrip_witness:
  "length [7, 8 :: bytes32] = length [1, 2 :: uint128] \<and> distinct [7, 8 :: bytes32] \<and>
   (\<exists>s'. setMany 1 [7, 8] [1, 2] deployed = Inr s' \<and> getMany 1 [7, 8] s' = Inr [1, 2])"
proof -
  have len: "length [7, 8 :: bytes32] = length [1, 2 :: uint128]" by simp
  have dist: "distinct [7, 8 :: bytes32]" by simp
  from C1_setMany_getMany_roundtrip [OF len, of 1 deployed] dist
  show ?thesis by auto
qed

text \<open>
  C2: when the two sequences differ in length, \<open>setMany\<close> reverts with the message of its
  \<open>require\<close>, before any store, and the contract's state after the call is the state
  before it: no stored amount of any (owner, identifier) pair has changed, and nothing
  has been logged.
\<close>

theorem C2_setMany_length_mismatch_reverts:
  assumes "length assetIds \<noteq> length amounts"
  shows "setMany sender assetIds amounts s = Inl (Revert ''Length mismatch'') \<and>
         transact (setMany sender assetIds amounts) s = s \<and>
         (\<forall>owner a. amountOf (transact (setMany sender assetIds amounts) s) owner a =
                    amountOf s owner a)"
  using assms by (simp add: setMany_def transact_def)

theorem C2_setMany_length_mismatch_reverts_witness:
  "length [7, 8 :: bytes32] \<noteq> length [1 :: uint128] \<and>
   setMany 1 [7, 8] [1] deployed = Inl (Revert ''Length mismatch'') \<and>
   transact (setMany 1 [7, 8] [1]) deployed = deployed"
proof -
  have len: "length [7, 8 :: bytes32] \<noteq> length [1 :: uint128]" by simp
  from C2_setMany_length_mismatch_reverts [OF len, of 1 deployed] len
  show ?thesis by blast
qed

text \<open>
  C3: \<open>getMany\<close> always returns (it has no failing path, and it takes no caller: the owner
  is an argument). Its result has the length of the identifier sequence and holds, at
  each position, the owner's stored amount for the identifier at that position. In a
  state reached from the deployed contract by any history of calls, a position whose
  (owner, identifier) pair no successful call has written holds zero.
\<close>

theorem C3_getMany_aligned_default_zero:
  "(\<exists>r. getMany owner assetIds s = Inr r \<and>
        length r = length assetIds \<and>
        (\<forall>i < length assetIds. r ! i = amountOf s owner (assetIds ! i))) \<and>
   (\<exists>r. getMany owner assetIds (run cs deployed) = Inr r \<and>
        (\<forall>i < length assetIds. (owner, assetIds ! i) \<notin> set (written cs) \<longrightarrow> r ! i = 0))"
proof -
  have "amountOf (run cs deployed) owner a = 0" if "(owner, a) \<notin> set (written cs)" for a
    using run_frame [OF that, of deployed] by (simp add: deployed_def)
  then show ?thesis
    by (simp add: getMany_eq)
qed

theorem C3_getMany_aligned_default_zero_witness:
  "(2, 8) \<notin> set (written [SetMany 1 [7, 8] [5, 6], Set 2 7 9]) \<and>
   (\<exists>r. getMany 2 [7, 8] (run [SetMany 1 [7, 8] [5, 6], Set 2 7 9] deployed) = Inr r \<and>
        length r = 2 \<and> r ! 1 = 0)"
proof -
  let ?cs = "[SetMany 1 [7, 8] [5, 6], Set 2 7 9]"
  have nw: "(2, [7, 8] ! 1) \<notin> set (written ?cs)"
    by (simp add: written_def)
  have one: "(1::nat) < length [7, 8 :: bytes32]"
    by simp
  from C3_getMany_aligned_default_zero [of 2 "[7, 8]" "run ?cs deployed" ?cs]
  obtain r r' where r: "getMany 2 [7, 8] (run ?cs deployed) = Inr r"
    and len: "length r = length [7, 8 :: bytes32]"
    and r': "getMany 2 [7, 8] (run ?cs deployed) = Inr r'"
    and zero: "\<forall>i < length [7, 8 :: bytes32]. (2, [7, 8] ! i) \<notin> set (written ?cs) \<longrightarrow> r' ! i = 0"
    by blast
  from r r' have "r' = r" by simp
  with zero one nw have "r ! 1 = 0" by blast
  with r len nw show ?thesis by simp
qed

text \<open>
  C10: a successful \<open>set\<close> or \<open>setMany\<close> changes no storage entry but the caller's entries
  for the identifiers passed in the call: every pair with another owner, and every pair
  of the caller whose identifier is not in the call, keeps its amount.
\<close>

theorem C10_set_setMany_frame:
  "(set_one sender assetId amount s = Inr s' \<longrightarrow>
      (\<forall>owner a. owner \<noteq> sender \<or> a \<noteq> assetId \<longrightarrow> amountOf s' owner a = amountOf s owner a)) \<and>
   (setMany sender assetIds amounts s = Inr s' \<longrightarrow>
      (\<forall>owner a. owner \<noteq> sender \<or> a \<notin> set assetIds \<longrightarrow>
         amountOf s' owner a = amountOf s owner a))"
proof (intro conjI impI allI)
  fix owner a
  assume "set_one sender assetId amount s = Inr s'" and "owner \<noteq> sender \<or> a \<noteq> assetId"
  then show "amountOf s' owner a = amountOf s owner a"
    by (auto simp: set_one_def store_amount_def)
next
  fix owner a
  assume ok: "setMany sender assetIds amounts s = Inr s'"
    and other: "owner \<noteq> sender \<or> a \<notin> set assetIds"
  from setMany_ok [OF setMany_Inr_length [OF ok], of sender s] ok
  have "amountOf s' owner a =
           (if owner = sender then
              (case last_written assetIds amounts a of
                 Some v \<Rightarrow> v | None \<Rightarrow> amountOf s owner a)
            else amountOf s owner a)"
    by auto
  with other show "amountOf s' owner a = amountOf s owner a"
    by (auto simp: last_written_None)
qed

theorem C10_set_setMany_frame_witness:
  "set_one 1 7 5 deployed = Inr (store_amount 1 7 5 deployed) \<and>
   amountOf (store_amount 1 7 5 deployed) 2 7 = amountOf deployed 2 7 \<and>
   amountOf (store_amount 1 7 5 deployed) 1 8 = amountOf deployed 1 8 \<and>
   (\<exists>s'. setMany 1 [7, 8] [5, 6] deployed = Inr s' \<and>
         amountOf s' 2 7 = amountOf deployed 2 7 \<and>
         amountOf s' 1 9 = amountOf deployed 1 9)"
proof -
  have one: "set_one 1 7 5 deployed = Inr (store_amount 1 7 5 deployed)"
    by (simp add: set_one_def)
  have len: "length [7, 8 :: bytes32] = length [5, 6 :: uint128]" by simp
  from setMany_ok [OF len, of 1 deployed]
  obtain s' where many: "setMany 1 [7, 8] [5, 6] deployed = Inr s'" by blast
  from C10_set_setMany_frame
    [where sender = 1 and assetId = 7 and amount = 5 and s = deployed
       and s' = "store_amount 1 7 5 deployed"] one
  have a: "amountOf (store_amount 1 7 5 deployed) 2 7 = amountOf deployed 2 7"
    and b: "amountOf (store_amount 1 7 5 deployed) 1 8 = amountOf deployed 1 8"
    by auto
  from C10_set_setMany_frame
    [where sender = 1 and assetIds = "[7, 8]" and amounts = "[5, 6]" and s = deployed
       and s' = s'] many
  have c: "amountOf s' 2 7 = amountOf deployed 2 7"
    and d: "amountOf s' 1 9 = amountOf deployed 1 9"
    by auto
  show ?thesis
    using one many a b c d by blast
qed

section \<open>Properties of the price proxy\<close>

lemma normalize_loop_Inr:
  "normalize_loop toNumber coins ks acc = Inr pm \<Longrightarrow>
   dom pm = dom acc \<union> (set ks - {''__proto__''}) \<and>
   (\<forall>k \<in> set ks - {''__proto__''}.
      \<exists>p. Number_or_zero toNumber (entry_field coins k ''price'') = Inr p \<and>
          pm k = Some \<lparr>symbol = entry_field coins k ''symbol'', price = p\<rparr>) \<and>
   (\<forall>k. k \<notin> set ks \<longrightarrow> pm k = acc k)"
proof (induction ks arbitrary: acc)
  case Nil
  then show ?case by simp
next
  case (Cons key rest)
  from Cons.prems obtain p where
    p: "Number_or_zero toNumber (entry_field coins key ''price'') = Inr p"
    by (auto split: sum.splits)
  let ?acc = "if key = ''__proto__'' then acc
              else acc(key \<mapsto> \<lparr>symbol = entry_field coins key ''symbol'', price = p\<rparr>)"
  from Cons.prems p have run: "normalize_loop toNumber coins rest ?acc = Inr pm"
    by simp
  note ih = Cons.IH [OF run]
  from ih have dom_pm: "dom pm = dom ?acc \<union> (set rest - {''__proto__''})"
    and in_rest: "\<And>k. k \<in> set rest - {''__proto__''} \<Longrightarrow>
          \<exists>p. Number_or_zero toNumber (entry_field coins k ''price'') = Inr p \<and>
              pm k = Some \<lparr>symbol = entry_field coins k ''symbol'', price = p\<rparr>"
    and out_rest: "\<And>k. k \<notin> set rest \<Longrightarrow> pm k = ?acc k"
    by blast+
  have 1: "dom pm = dom acc \<union> (set (key # rest) - {''__proto__''})"
    using dom_pm by auto
  have 2: "\<exists>p. Number_or_zero toNumber (entry_field coins k ''price'') = Inr p \<and>
              pm k = Some \<lparr>symbol = entry_field coins k ''symbol'', price = p\<rparr>"
    if k: "k \<in> set (key # rest) - {''__proto__''}" for k
  proof (cases "k \<in> set rest")
    case True
    with k in_rest show ?thesis by simp
  next
    case False
    with k have "k = key" and "key \<noteq> ''__proto__''" by auto
    with out_rest [OF False] p show ?thesis by simp
  qed
  have 3: "pm k = acc k" if "k \<notin> set (key # rest)" for k
    using that out_rest [of k] by simp
  show ?case
    using 1 2 3 by blast
qed

lemma normalize_loop_total:
  "\<forall>k \<in> set ks. \<not> isl (Number_or_zero toNumber (entry_field coins k ''price'')) \<Longrightarrow>
   \<exists>pm. normalize_loop toNumber coins ks acc = Inr pm"
proof (induction ks arbitrary: acc)
  case Nil
  then show ?case by simp
next
  case (Cons key rest)
  then obtain p where "Number_or_zero toNumber (entry_field coins key ''price'') = Inr p"
    by (cases "Number_or_zero toNumber (entry_field coins key ''price'')") auto
  with Cons show ?case by simp
qed

lemma Number_or_zero_absent:
  "x = None \<or> x = Some JNull \<Longrightarrow> Number_or_zero toNumber x = Inr (Fin 0)"
  by auto

text \<open>The three kinds of answer of the handler, one lemma each.\<close>

lemma GET_rejected:
  "fetch (upstream_url (request_ids idsParam)) = Rejected err \<Longrightarrow>
   GET toNumber fetch now idsParam = internal_error err"
  by (simp add: GET_def)

lemma GET_not_ok:
  "fetch (upstream_url (request_ids idsParam)) = Responded st res_json \<Longrightarrow> \<not> ok st \<Longrightarrow>
   GET toNumber fetch now idsParam =
     \<lparr>status = 502, cache_control = None,
      body = ErrorBody (''Upstream error: '' @ show_nat st)\<rparr>"
  by (simp add: GET_def)

lemma GET_json_fails:
  "fetch (upstream_url (request_ids idsParam)) = Responded st (JsonFails err) \<Longrightarrow> ok st \<Longrightarrow>
   GET toNumber fetch now idsParam = internal_error err"
  by (simp add: GET_def)

lemma GET_json:
  "fetch (upstream_url (request_ids idsParam)) = Responded st (Json json) \<Longrightarrow> ok st \<Longrightarrow>
   GET toNumber fetch now idsParam =
     (case normalize toNumber json of
        Inl err \<Rightarrow> internal_error err
      | Inr pm \<Rightarrow> \<lparr>status = 200, cache_control = Some ''no-store'', body = PricesBody pm now\<rparr>)"
  by (simp add: GET_def)

subsection \<open>Claims about the proxy\<close>

text \<open>
  C4 (as stated): a request with \<open>ids=a,b\<close> and a successful upstream returns exactly the
  two entries \<open>a\<close> and \<open>b\<close>, an identifier absent from the upstream response getting a zero
  price. The handler does not consult the requested identifiers when it builds \<open>prices\<close>:
  it copies the keys of the upstream's \<open>coins\<close>. With \<open>ids=a,b\<close> and an upstream that
  quotes \<open>a\<close> only, the answer has the status 200 and the single entry \<open>a\<close>; \<open>b\<close> has no
  entry.
\<close>

theorem C4_absent_identifier_counterexample:
  "request_ids (Some ''a,b'') = [''a'', ''b''] \<and>
   status (GET all_NaN upstream_a_only 0 (Some ''a,b'')) = 200 \<and>
   dom (prices_of (GET all_NaN upstream_a_only 0 (Some ''a,b''))) = {''a''} \<and>
   prices_of (GET all_NaN upstream_a_only 0 (Some ''a,b'')) ''b'' = None"
  by (simp add: GET_def upstream_a_only_def quote_a_only_def ok_def normalize_def
      entry_field_def prices_of_def request_ids_def trim_def is_space_def)

text \<open>
  C4 (amended): when the upstream responds with success and a JSON body that has a truthy
  \<open>coins\<close>, and no conversion of a price to a number throws, the answer has the status
  200 and its \<open>prices\<close> has exactly the keys of the upstream's \<open>coins\<close> (but \<open>__proto__\<close>),
  whatever identifiers were requested: exactly the entries \<open>a\<close> and \<open>b\<close> when these are
  the keys of \<open>coins\<close>. An entry whose \<open>price\<close> is absent or null upstream has the price
  zero.
\<close>

theorem C4_prices_follow_upstream_keys:
  assumes "fetch (upstream_url (request_ids idsParam)) = Responded st (Json json)"
    and "ok st"
    and "property json ''coins'' = Some coins" and "truthy coins"
    and "\<forall>k \<in> set (keys coins).
           \<not> isl (Number_or_zero toNumber (entry_field coins k ''price''))"
  shows "\<exists>pm. GET toNumber fetch now idsParam =
             \<lparr>status = 200, cache_control = Some ''no-store'', body = PricesBody pm now\<rparr> \<and>
           dom pm = set (keys coins) - {''__proto__''} \<and>
           (\<forall>k q. pm k = Some q \<longrightarrow>
              symbol q = entry_field coins k ''symbol'' \<and>
              (entry_field coins k ''price'' = None \<or>
               entry_field coins k ''price'' = Some JNull \<longrightarrow> price q = Fin 0)) \<and>
           (\<forall>a b. set (keys coins) = {a, b} \<and> a \<noteq> ''__proto__'' \<and> b \<noteq> ''__proto__'' \<longrightarrow>
              dom pm = {a, b})"
proof -
  have tj: "truthy json"
    using assms(3) by (cases json) simp_all
  from normalize_loop_total [OF assms(5), of Map.empty]
  obtain pm where loop: "normalize_loop toNumber coins (keys coins) Map.empty = Inr pm"
    by blast
  then have norm: "normalize toNumber json = Inr pm"
    using tj assms(3,4) by (simp add: normalize_def)
  have get: "GET toNumber fetch now idsParam =
      \<lparr>status = 200, cache_control = Some ''no-store'', body = PricesBody pm now\<rparr>"
    using GET_json [where fetch = fetch and idsParam = idsParam, OF assms(1,2)] norm by simp
  from normalize_loop_Inr [OF loop]
  have dom_pm: "dom pm = set (keys coins) - {''__proto__''}"
    and entry: "\<And>k. k \<in> set (keys coins) - {''__proto__''} \<Longrightarrow>
          \<exists>p. Number_or_zero toNumber (entry_field coins k ''price'') = Inr p \<and>
              pm k = Some \<lparr>symbol = entry_field coins k ''symbol'', price = p\<rparr>"
    by auto
  have fields: "symbol q = entry_field coins k ''symbol'' \<and>
      (entry_field coins k ''price'' = None \<or>
       entry_field coins k ''price'' = Some JNull \<longrightarrow> price q = Fin 0)"
    if "pm k = Some q" for k q
  proof -
    from that have "k \<in> dom pm" by blast
    with dom_pm entry obtain p where
      p: "Number_or_zero toNumber (entry_field coins k ''price'') = Inr p"
      and q: "pm k = Some \<lparr>symbol = entry_field coins k ''symbol'', price = p\<rparr>"
      by blast
    from q that have "q = \<lparr>symbol = entry_field coins k ''symbol'', price = p\<rparr>"
      by simp
    moreover have "p = Fin 0"
      if "entry_field coins k ''price'' = None \<or> entry_field coins k ''price'' = Some JNull"
      using Number_or_zero_absent [OF that, of toNumber] p by simp
    ultimately show ?thesis by simp
  qed
  have two: "dom pm = {a, b}"
    if "set (keys coins) = {a, b} \<and> a \<noteq> ''__proto__'' \<and> b \<noteq> ''__proto__''" for a b
    using that dom_pm by auto
  show ?thesis
    using get dom_pm fields two by blast
qed

theorem C4_prices_follow_upstream_keys_witness:
  "upstream_a_b (upstream_url (request_ids (Some ''a,b''))) =
     Responded 200 (Json (JObj [(''coins'', coins_a_b)])) \<and>
   ok 200 \<and>
   property (JObj [(''coins'', coins_a_b)]) ''coins'' = Some coins_a_b \<and>
   truthy coins_a_b \<and>
   keys coins_a_b = [''a'', ''b''] \<and>
   \<not> isl (Number_or_zero all_NaN (entry_field coins_a_b ''a'' ''price'')) \<and>
   \<not> isl (Number_or_zero all_NaN (entry_field coins_a_b ''b'' ''price'')) \<and>
   entry_field coins_a_b ''b'' ''price'' = None \<and>
   status (GET all_NaN upstream_a_b 0 (Some ''a,b'')) = 200 \<and>
   dom (prices_of (GET all_NaN upstream_a_b 0 (Some ''a,b''))) = {''a'', ''b''} \<and>
   map_option price (prices_of (GET all_NaN upstream_a_b 0 (Some ''a,b'')) ''b'') = Some (Fin 0)"
proof -
  have 1: "upstream_a_b (upstream_url (request_ids (Some ''a,b''))) =
     Responded 200 (Json (JObj [(''coins'', coins_a_b)]))"
    by (simp add: upstream_a_b_def)
  have 2: "ok 200"
    by (simp add: ok_def)
  have 3: "property (JObj [(''coins'', coins_a_b)]) ''coins'' = Some coins_a_b"
    by simp
  have 4: "truthy coins_a_b"
    by (simp add: coins_a_b_def)
  have ks: "keys coins_a_b = [''a'', ''b'']"
    by (simp add: coins_a_b_def)
  have a: "\<not> isl (Number_or_zero all_NaN (entry_field coins_a_b ''a'' ''price''))"
    by (simp add: coins_a_b_def entry_field_def)
  have b: "entry_field coins_a_b ''b'' ''price'' = None"
    by (simp add: coins_a_b_def entry_field_def)
  then have b': "\<not> isl (Number_or_zero all_NaN (entry_field coins_a_b ''b'' ''price''))"
    by simp
  have 5: "\<forall>k \<in> set (keys coins_a_b).
      \<not> isl (Number_or_zero all_NaN (entry_field coins_a_b k ''price''))"
    unfolding ks using a b' by simp
  from C4_prices_follow_upstream_keys
    [where fetch = upstream_a_b and idsParam = "Some ''a,b''" and now = 0, OF 1 2 3 4 5]
  obtain pm where get: "GET all_NaN upstream_a_b 0 (Some ''a,b'') =
             \<lparr>status = 200, cache_control = Some ''no-store'', body = PricesBody pm 0\<rparr>"
    and dom_pm: "dom pm = set (keys coins_a_b) - {''__proto__''}"
    and flds: "\<forall>k q. pm k = Some q \<longrightarrow>
              symbol q = entry_field coins_a_b k ''symbol'' \<and>
              (entry_field coins_a_b k ''price'' = None \<or>
               entry_field coins_a_b k ''price'' = Some JNull \<longrightarrow> price q = Fin 0)"
    by blast
  have d: "dom pm = {''a'', ''b''}"
    using dom_pm unfolding ks by auto
  then obtain q where q: "pm ''b'' = Some q"
    by blast
  with flds b have "price q = Fin 0"
    by blast
  with q have pb: "map_option price (pm ''b'') = Some (Fin 0)"
    by simp
  have st: "status (GET all_NaN upstream_a_b 0 (Some ''a,b'')) = 200"
    and po: "prices_of (GET all_NaN upstream_a_b 0 (Some ''a,b'')) = pm"
    by (simp_all add: get prices_of_def)
  show ?thesis
    using 1 2 3 4 ks a b b' st d pb unfolding po by blast
qed

text \<open>
  C5: whatever the request, an upstream status outside 200 to 299 gives the status 502
  and a body with an \<open>error\<close>; a \<open>fetch\<close> that rejects, a body that fails to parse and a
  conversion that throws while the prices are built give the status 500 and a body with
  the \<open>error\<close> of what was thrown. Neither status is a success.
\<close>

theorem C5_upstream_failures_are_reported:
  "(fetch (upstream_url (request_ids idsParam)) = Responded st res_json \<and> \<not> ok st \<longrightarrow>
      status (GET toNumber fetch now idsParam) = 502 \<and>
      body (GET toNumber fetch now idsParam) = ErrorBody (''Upstream error: '' @ show_nat st)) \<and>
   (fetch (upstream_url (request_ids idsParam)) = Rejected err \<or>
    fetch (upstream_url (request_ids idsParam)) = Responded st (JsonFails err) \<and> ok st \<or>
    fetch (upstream_url (request_ids idsParam)) = Responded st (Json json) \<and> ok st \<and>
      normalize toNumber json = Inl err \<longrightarrow>
      status (GET toNumber fetch now idsParam) = 500 \<and>
      body (GET toNumber fetch now idsParam) = ErrorBody (message err)) \<and>
   \<not> ok 502 \<and> \<not> ok 500"
proof (intro conjI impI)
  assume a: "fetch (upstream_url (request_ids idsParam)) = Responded st res_json \<and> \<not> ok st"
  then show "status (GET toNumber fetch now idsParam) = 502"
    and "body (GET toNumber fetch now idsParam) = ErrorBody (''Upstream error: '' @ show_nat st)"
    by (simp_all add: GET_not_ok)
next
  assume "fetch (upstream_url (request_ids idsParam)) = Rejected err \<or>
    fetch (upstream_url (request_ids idsParam)) = Responded st (JsonFails err) \<and> ok st \<or>
    fetch (upstream_url (request_ids idsParam)) = Responded st (Json json) \<and> ok st \<and>
      normalize toNumber json = Inl err"
  then have "GET toNumber fetch now idsParam = internal_error err"
    by (auto simp: GET_rejected GET_json_fails GET_json)
  then show "status (GET toNumber fetch now idsParam) = 500"
    and "body (GET toNumber fetch now idsParam) = ErrorBody (message err)"
    by (simp_all add: internal_error_def)
next
  show "\<not> ok 502" and "\<not> ok 500"
    by (simp_all add: ok_def)
qed

theorem C5_upstream_failures_are_reported_witness:
  "upstream_503 (upstream_url (request_ids None)) = Responded 503 (JsonFails Other) \<and> \<not> ok 503 \<and>
   status (GET all_NaN upstream_503 0 None) = 502 \<and>
   body (GET all_NaN upstream_503 0 None) = ErrorBody ''Upstream error: 503'' \<and>
   upstream_down (upstream_url (request_ids None)) = Rejected (Error ''fetch failed'') \<and>
   status (GET all_NaN upstream_down 0 None) = 500 \<and>
   body (GET all_NaN upstream_down 0 None) = ErrorBody ''fetch failed'' \<and>
   upstream_garbled (upstream_url (request_ids None)) =
     Responded 200 (JsonFails (Error ''Unexpected token'')) \<and> ok 200 \<and>
   status (GET all_NaN upstream_garbled 0 None) = 500 \<and>
   body (GET all_NaN upstream_garbled 0 None) = ErrorBody ''Unexpected token'' \<and>
   status (GET no_primitive upstream_odd_price 0 None) = 500 \<and>
   body (GET no_primitive upstream_odd_price 0 None) =
     ErrorBody ''Cannot convert object to primitive value''"
proof -
  have 1: "upstream_503 (upstream_url (request_ids None)) = Responded 503 (JsonFails Other)"
    by (simp add: upstream_503_def)
  have 2: "\<not> ok 503"
    by (simp add: ok_def)
  have 3: "upstream_down (upstream_url (request_ids None)) = Rejected (Error ''fetch failed'')"
    by (simp add: upstream_down_def)
  have 4: "upstream_garbled (upstream_url (request_ids None)) =
      Responded 200 (JsonFails (Error ''Unexpected token''))"
    by (simp add: upstream_garbled_def)
  have 5: "ok 200"
    by (simp add: ok_def)
  let ?odd = "JObj [(''coins'',
          JObj [(''a'', JObj [(''price'', JObj [(''toString'', JNum (Fin 1))])])])]"
  have 6: "upstream_odd_price (upstream_url (request_ids None)) = Responded 200 (Json ?odd)"
    by (simp add: upstream_odd_price_def)
  have 7: "normalize no_primitive ?odd =
      Inl (Error ''Cannot convert object to primitive value'')"
    by (simp add: normalize_def entry_field_def no_primitive_def)
  have s: "show_nat 503 = ''503''"
    by (simp add: show_nat.simps digit_def)
  from C5_upstream_failures_are_reported
    [where fetch = upstream_503 and idsParam = None and st = 503
       and res_json = "JsonFails Other" and toNumber = all_NaN and now = 0] 1 2
  have a: "status (GET all_NaN upstream_503 0 None) = 502"
    and b: "body (GET all_NaN upstream_503 0 None) = ErrorBody (''Upstream error: '' @ show_nat 503)"
    by blast+
  from C5_upstream_failures_are_reported
    [where fetch = upstream_down and idsParam = None
       and err = "Error ''fetch failed''" and toNumber = all_NaN and now = 0] 3
  have c: "status (GET all_NaN upstream_down 0 None) = 500"
    and d: "body (GET all_NaN upstream_down 0 None) = ErrorBody (message (Error ''fetch failed''))"
    by blast+
  from C5_upstream_failures_are_reported
    [where fetch = upstream_garbled and idsParam = None and st = 200
       and err = "Error ''Unexpected token''" and toNumber = all_NaN and now = 0] 4 5
  have e: "status (GET all_NaN upstream_garbled 0 None) = 500"
    and f: "body (GET all_NaN upstream_garbled 0 None) =
        ErrorBody (message (Error ''Unexpected token''))"
    by blast+
  from C5_upstream_failures_are_reported
    [where fetch = upstream_odd_price and idsParam = None and st = 200 and json = ?odd
       and err = "Error ''Cannot convert object to primitive value''"
       and toNumber = no_primitive and now = 0] 5 6 7
  have g: "status (GET no_primitive upstream_odd_price 0 None) = 500"
    and h: "body (GET no_primitive upstream_odd_price 0 None) =
        ErrorBody (message (Error ''Cannot convert object to primitive value''))"
    by blast+
  show ?thesis
    using 1 2 3 4 5 a b c d e f g h s by (simp add: message_def)
qed

section \<open>Properties of the portfolio view\<close>

subsection \<open>Valuation\<close>

lemma foldl_values:
  "foldl (\<lambda>sum h. let p = price_or_zero pm (h_id h)
                   in js_add rnd sum (js_mul rnd (h_amount h) p)) z hs =
   foldl (js_add rnd) z (map (\<lambda>h. js_mul rnd (h_amount h) (price_or_zero pm (h_id h))) hs)"
  by (induction hs arbitrary: z) simp_all

lemma totalUsd_values:
  "totalUsd rnd hs pm =
   foldl (js_add rnd) (Fin 0) (map (\<lambda>h. js_mul rnd (h_amount h) (price_or_zero pm (h_id h))) hs)"
  unfolding totalUsd_def by (rule foldl_values)

lemma js_mul_zero_finite: "rnd 0 = Fin 0 \<Longrightarrow> isFinite p \<Longrightarrow> js_mul rnd (Fin 0) p = Fin 0"
  by (cases p) simp_all

text \<open>Every sum is a double, and so is every running total.\<close>

lemma js_add_double:
  "rounds_to_doubles rnd \<Longrightarrow> js_add rnd u v = Fin a \<Longrightarrow> rnd a = Fin a"
  by (cases u; cases v) (auto simp: rounds_to_doubles_def)

lemma foldl_js_add_double:
  "rounds_to_doubles rnd \<Longrightarrow> foldl (js_add rnd) (Fin 0) vs = Fin a \<Longrightarrow> rnd a = Fin a"
proof (induction vs arbitrary: a rule: rev_induct)
  case Nil
  then show ?case by (simp add: rounds_to_doubles_def)
next
  case (snoc v vs)
  from snoc.prems(2) have "js_add rnd (foldl (js_add rnd) (Fin 0) vs) v = Fin a"
    by simp
  with snoc.prems(1) show ?case by (rule js_add_double)
qed

text \<open>Adding zero to a double leaves it as it is.\<close>

lemma js_add_zero:
  assumes "\<And>a. acc = Fin a \<Longrightarrow> rnd a = Fin a"
  shows "js_add rnd acc (Fin 0) = acc"
  using assms by (cases acc) simp_all

text \<open>\<open>removeRow\<close> takes the row at the index out of the list.\<close>

lemma filter_index_above:
  "index < k \<Longrightarrow>
   map snd (filter (\<lambda>(i, h). i \<noteq> index) (zip [k..<k + length xs] xs)) = xs"
proof (induction xs arbitrary: k)
  case Nil
  then show ?case by simp
next
  case (Cons x xs)
  have "[k..<k + length (x # xs)] = k # [Suc k..<Suc k + length xs]"
    by (subst upt_rec) simp
  with Cons.IH [of "Suc k"] Cons.prems show ?case by simp
qed

lemma filter_index_from:
  "k \<le> index \<Longrightarrow>
   map snd (filter (\<lambda>(i, h). i \<noteq> index) (zip [k..<k + length xs] xs)) =
     take (index - k) xs @ drop (Suc (index - k)) xs"
proof (induction xs arbitrary: k)
  case Nil
  then show ?case by simp
next
  case (Cons x xs)
  have upt: "[k..<k + length (x # xs)] = k # [Suc k..<Suc k + length xs]"
    by (subst upt_rec) simp
  show ?case
  proof (cases "k = index")
    case True
    with filter_index_above [of index "Suc k" xs] upt show ?thesis by simp
  next
    case False
    with Cons.prems have lt: "Suc k \<le> index" by simp
    then have "index - k = Suc (index - Suc k)" by simp
    with Cons.IH [OF lt] upt False show ?thesis by simp
  qed
qed

lemma removeRow_take_drop: "removeRow index prev = take index prev @ drop (Suc index) prev"
  using filter_index_from [of 0 index prev] by (simp add: removeRow_def)

text \<open>
  A row whose amount is zero and whose price is finite adds nothing to the total: the
  total is that of the list without the row.
\<close>

lemma zero_row_total:
  assumes rnd: "rounds_to_doubles rnd"
    and index: "index < length prev"
    and finite: "isFinite (price_or_zero pm (h_id (prev ! index)))"
  shows "totalUsd rnd (prev[index := (prev ! index)\<lparr>h_amount := Fin 0\<rparr>]) pm =
         totalUsd rnd (removeRow index prev) pm"
proof -
  let ?worth = "\<lambda>h. js_mul rnd (h_amount h) (price_or_zero pm (h_id h))"
  let ?row = "(prev ! index)\<lparr>h_amount := Fin 0\<rparr>"
  let ?before = "foldl (js_add rnd) (Fin 0) (map ?worth (take index prev))"
  from rnd have zero: "rnd 0 = Fin 0"
    by (simp add: rounds_to_doubles_def)
  have row: "?worth ?row = Fin 0"
    using js_mul_zero_finite [where rnd = rnd, OF zero finite] by simp
  have split: "prev[index := ?row] = take index prev @ ?row # drop (Suc index) prev"
    using index by (rule upd_conv_take_nth_drop)
  have same: "js_add rnd ?before (Fin 0) = ?before"
    by (rule js_add_zero) (rule foldl_js_add_double [OF rnd])
  have "totalUsd rnd (prev[index := ?row]) pm =
      foldl (js_add rnd) (js_add rnd ?before (?worth ?row)) (map ?worth (drop (Suc index) prev))"
    unfolding totalUsd_values split by simp
  also have "\<dots> = foldl (js_add rnd) ?before (map ?worth (drop (Suc index) prev))"
    unfolding row same ..
  also have "\<dots> = totalUsd rnd (removeRow index prev) pm"
    unfolding totalUsd_values removeRow_take_drop by simp
  finally show ?thesis .
qed

text \<open>
  C6: for every holdings list and price mapping, and every rounding, the total is the
  sum, accumulated from zero in the order of the list, of the values amount times price
  of the holdings; the price is the one looked up by the holding's identifier, and zero
  when the mapping has no quote for it (or a quote whose price is \<open>null\<close>). An amount
  entered through \<open>updateAmount\<close> at a row of the list as a non-finite number is stored as
  zero, and the row then contributes zero to the total: its value is zero and the total
  is that of the list without the row. The prices are those that the view can hold:
  a price is a finite number (a real number in the data model; a price that is not
  finite leaves the proxy as \<open>null\<close>, which the view reads as zero), and the rounding is
  that of doubles.
\<close>

theorem C6_total_is_sum_of_values:
  "totalUsd rnd holdings pm =
     foldl (js_add rnd) (Fin 0)
       (map (\<lambda>h. js_mul rnd (h_amount h) (price_or_zero pm (h_id h))) holdings) \<and>
   (pm ident = None \<longrightarrow> price_or_zero pm ident = Fin 0) \<and>
   (pm ident = Some q \<and> q_price q = None \<longrightarrow> price_or_zero pm ident = Fin 0) \<and>
   (pm ident = Some q \<and> q_price q = Some p \<longrightarrow> price_or_zero pm ident = p) \<and>
   (pm ident = Some q \<and> q_price q = received_price n \<longrightarrow>
      isFinite (price_or_zero pm ident)) \<and>
   (index < length prev \<and> \<not> isFinite x \<longrightarrow>
      (\<exists>next. updateAmount index x prev = Some next \<and>
         next = prev[index := (prev ! index)\<lparr>h_amount := Fin 0\<rparr>] \<and>
         h_amount (next ! index) = Fin 0 \<and>
         (rounds_to_doubles rnd \<and> isFinite (price_or_zero pm (h_id (prev ! index))) \<longrightarrow>
            js_mul rnd (h_amount (next ! index)) (price_or_zero pm (h_id (next ! index))) =
              Fin 0 \<and>
            totalUsd rnd next pm = totalUsd rnd (removeRow index prev) pm)))"
proof (intro conjI impI)
  show "totalUsd rnd holdings pm =
     foldl (js_add rnd) (Fin 0)
       (map (\<lambda>h. js_mul rnd (h_amount h) (price_or_zero pm (h_id h))) holdings)"
    by (rule totalUsd_values)
next
  assume "pm ident = None"
  then show "price_or_zero pm ident = Fin 0"
    by (simp add: price_or_zero_def)
next
  assume "pm ident = Some q \<and> q_price q = None"
  then show "price_or_zero pm ident = Fin 0"
    by (simp add: price_or_zero_def)
next
  assume "pm ident = Some q \<and> q_price q = Some p"
  then show "price_or_zero pm ident = p"
    by (simp add: price_or_zero_def)
next
  assume "pm ident = Some q \<and> q_price q = received_price n"
  then show "isFinite (price_or_zero pm ident)"
    by (simp add: price_or_zero_def received_price_def)
next
  assume a: "index < length prev \<and> \<not> isFinite x"
  let ?next = "prev[index := (prev ! index)\<lparr>h_amount := Fin 0\<rparr>]"
  have 1: "updateAmount index x prev = Some ?next"
    using a by (simp add: updateAmount_def)
  have 2: "h_amount (?next ! index) = Fin 0"
    using a by simp
  have 3: "h_id (?next ! index) = h_id (prev ! index)"
    using a by simp
  have 4: "js_mul rnd (h_amount (?next ! index)) (price_or_zero pm (h_id (?next ! index))) =
      Fin 0 \<and>
      totalUsd rnd ?next pm = totalUsd rnd (removeRow index prev) pm"
    if h: "rounds_to_doubles rnd \<and> isFinite (price_or_zero pm (h_id (prev ! index)))"
  proof
    from h have "rnd 0 = Fin 0"
      by (simp add: rounds_to_doubles_def)
    with h show "js_mul rnd (h_amount (?next ! index))
        (price_or_zero pm (h_id (?next ! index))) = Fin 0"
      unfolding 2 3 by (simp add: js_mul_zero_finite)
    from h a show "totalUsd rnd ?next pm = totalUsd rnd (removeRow index prev) pm"
      by (simp add: zero_row_total)
  qed
  show "\<exists>next. updateAmount index x prev = Some next \<and>
         next = prev[index := (prev ! index)\<lparr>h_amount := Fin 0\<rparr>] \<and>
         h_amount (next ! index) = Fin 0 \<and>
         (rounds_to_doubles rnd \<and> isFinite (price_or_zero pm (h_id (prev ! index))) \<longrightarrow>
            js_mul rnd (h_amount (next ! index)) (price_or_zero pm (h_id (next ! index))) =
              Fin 0 \<and>
            totalUsd rnd next pm = totalUsd rnd (removeRow index prev) pm)"
    using 1 2 4 by blast
qed

theorem C6_total_is_sum_of_values_witness:
  "totalUsd Fin [holding_x] prices_x_3 = Fin 6 \<and>
   totalUsd Fin (removeRow 0 [holding_x]) prices_x_3 = Fin 0 \<and>
   prices_x_3 ''y'' = None \<and> price_or_zero prices_x_3 ''y'' = Fin 0 \<and>
   prices_x_null ''x'' = Some \<lparr>q_symbol = None, q_price = None\<rparr> \<and>
   q_price \<lparr>q_symbol = None, q_price = None\<rparr> = received_price PosInf \<and>
   price_or_zero prices_x_null ''x'' = Fin 0 \<and>
   isFinite (price_or_zero prices_x_null ''x'') \<and>
   prices_x_3 ''x'' = Some \<lparr>q_symbol = None, q_price = Some (Fin 3)\<rparr> \<and>
   price_or_zero prices_x_3 ''x'' = Fin 3 \<and>
   0 < length [holding_x, holding_y] \<and> \<not> isFinite NaN \<and> rounds_to_doubles Fin \<and>
   isFinite (price_or_zero prices_x_3_y_4 (h_id ([holding_x, holding_y] ! 0))) \<and>
   totalUsd Fin [holding_x, holding_y] prices_x_3_y_4 = Fin 26 \<and>
   updateAmount 0 NaN [holding_x, holding_y] =
     Some [holding_x\<lparr>h_amount := Fin 0\<rparr>, holding_y] \<and>
   totalUsd Fin [holding_x\<lparr>h_amount := Fin 0\<rparr>, holding_y] prices_x_3_y_4 =
     totalUsd Fin (removeRow 0 [holding_x, holding_y]) prices_x_3_y_4 \<and>
   totalUsd Fin [holding_x\<lparr>h_amount := Fin 0\<rparr>, holding_y] prices_x_3_y_4 = Fin 20"
proof -
  let ?null = "\<lparr>q_symbol = None, q_price = None\<rparr>"
  let ?three = "\<lparr>q_symbol = None, q_price = Some (Fin 3)\<rparr>"
  note sum_x = C6_total_is_sum_of_values
    [where rnd = Fin and holdings = "[holding_x]" and pm = prices_x_3 and ident = "''y''"]
  note at_null = C6_total_is_sum_of_values
    [where pm = prices_x_null and ident = "''x''" and q = ?null and n = PosInf]
  note at_three = C6_total_is_sum_of_values
    [where pm = prices_x_3 and ident = "''x''" and q = ?three and p = "Fin 3"]
  note zeroed = C6_total_is_sum_of_values
    [where rnd = Fin and holdings = "[holding_x, holding_y]" and pm = prices_x_3_y_4
       and index = 0 and prev = "[holding_x, holding_y]" and x = NaN]
  have y: "prices_x_3 ''y'' = None"
    by (simp add: prices_x_3_def)
  have xn: "prices_x_null ''x'' = Some ?null"
    by (simp add: prices_x_null_def)
  have rn: "q_price ?null = received_price PosInf"
    by (simp add: received_price_def)
  have x3: "prices_x_3 ''x'' = Some ?three"
    by (simp add: prices_x_3_def)
  from sum_x y have py: "price_or_zero prices_x_3 ''y'' = Fin 0"
    by blast
  from at_null xn have pn: "price_or_zero prices_x_null ''x'' = Fin 0"
    by simp
  from at_null xn rn have fn: "isFinite (price_or_zero prices_x_null ''x'')"
    by blast
  from at_three x3 have p3: "price_or_zero prices_x_3 ''x'' = Fin 3"
    by simp
  from sum_x have "totalUsd Fin [holding_x] prices_x_3 =
     foldl (js_add Fin) (Fin 0)
       (map (\<lambda>h. js_mul Fin (h_amount h) (price_or_zero prices_x_3 (h_id h))) [holding_x])"
    by blast
  then have t6: "totalUsd Fin [holding_x] prices_x_3 = Fin 6"
    by (simp add: holding_x_def p3)
  have removed: "totalUsd Fin (removeRow 0 [holding_x]) prices_x_3 = Fin 0"
    by (simp add: removeRow_def totalUsd_def)
  have hyp: "0 < length [holding_x, holding_y] \<and> \<not> isFinite NaN"
    by simp
  have rd: "rounds_to_doubles Fin"
    by (simp add: rounds_to_doubles_def)
  have fx: "isFinite (price_or_zero prices_x_3_y_4 (h_id ([holding_x, holding_y] ! 0)))"
    by (simp add: holding_x_def price_or_zero_def prices_x_3_y_4_def)
  from zeroed have "totalUsd Fin [holding_x, holding_y] prices_x_3_y_4 =
     foldl (js_add Fin) (Fin 0)
       (map (\<lambda>h. js_mul Fin (h_amount h) (price_or_zero prices_x_3_y_4 (h_id h)))
          [holding_x, holding_y])"
    by blast
  then have t26: "totalUsd Fin [holding_x, holding_y] prices_x_3_y_4 = Fin 26"
    by (simp add: holding_x_def holding_y_def price_or_zero_def prices_x_3_y_4_def)
  from zeroed hyp rd fx obtain "next" where
    up: "updateAmount 0 NaN [holding_x, holding_y] = Some next"
    and nx: "next = [holding_x, holding_y][0 := ([holding_x, holding_y] ! 0)\<lparr>h_amount := Fin 0\<rparr>]"
    and same: "totalUsd Fin next prices_x_3_y_4 =
        totalUsd Fin (removeRow 0 [holding_x, holding_y]) prices_x_3_y_4"
    by blast
  from nx have nx': "next = [holding_x\<lparr>h_amount := Fin 0\<rparr>, holding_y]"
    by simp
  have t20: "totalUsd Fin [holding_x\<lparr>h_amount := Fin 0\<rparr>, holding_y] prices_x_3_y_4 = Fin 20"
    by (simp add: totalUsd_def holding_x_def holding_y_def price_or_zero_def prices_x_3_y_4_def)
  show ?thesis
    using t6 removed y py xn rn pn fn x3 p3 hyp rd fx t26 up same t20 unfolding nx'
    by (intro conjI) simp_all
qed

subsection \<open>Loading the stored amounts\<close>

lemma reconcile_nth:
  "i < length prev \<Longrightarrow>
   reconcile rnd (Some stored) prev ! i =
     (prev ! i)\<lparr>h_amount := fromFixed18 rnd (if i < length stored then stored ! i else 0)\<rparr>"
  by (simp add: reconcile_def)

text \<open>
  C7: when the read has returned, the list keeps its length and every holding keeps its
  other fields, and the amount of the holding at each position is overwritten with the
  stored amount at that position (zero where the result has no such position), divided
  by \<open>10^18\<close> and rounded to a double. A stored amount of 500000000000000000 gives the
  amount 0.5, which is a double and so its own rounding.
\<close>

theorem C7_reconcile_overwrites_by_position:
  "length (reconcile rnd (Some stored) prev) = length prev \<and>
   (\<forall>i < length prev.
      reconcile rnd (Some stored) prev ! i =
        (prev ! i)\<lparr>h_amount := fromFixed18 rnd (if i < length stored then stored ! i else 0)\<rparr> \<and>
      (i < length stored \<longrightarrow>
         h_amount (reconcile rnd (Some stored) prev ! i) =
           rnd (real_of_int (stored ! i) / 10 ^ 18))) \<and>
   (rnd (1 / 2) = Fin (1 / 2) \<longrightarrow>
      reconcile rnd (Some [500000000000000000]) [h] = [h\<lparr>h_amount := Fin (1 / 2)\<rparr>])"
proof (intro conjI allI impI)
  show "length (reconcile rnd (Some stored) prev) = length prev"
    by (simp add: reconcile_def)
next
  fix i assume "i < length prev"
  then show "reconcile rnd (Some stored) prev ! i =
        (prev ! i)\<lparr>h_amount := fromFixed18 rnd (if i < length stored then stored ! i else 0)\<rparr>"
    by (rule reconcile_nth)
next
  fix i assume "i < length prev" and "i < length stored"
  then show "h_amount (reconcile rnd (Some stored) prev ! i) =
           rnd (real_of_int (stored ! i) / 10 ^ 18)"
    by (simp add: reconcile_nth fromFixed18_def)
next
  assume "rnd (1 / 2) = Fin (1 / 2)"
  then show "reconcile rnd (Some [500000000000000000]) [h] = [h\<lparr>h_amount := Fin (1 / 2)\<rparr>]"
    by (simp add: reconcile_def fromFixed18_def)
qed

theorem C7_reconcile_overwrites_by_position_witness:
  "Fin (1 / 2) = Fin (1 / 2) \<and>
   reconcile Fin (Some [500000000000000000]) [holding_x] = [holding_x\<lparr>h_amount := Fin (1 / 2)\<rparr>] \<and>
   (0::nat) < length [holding_x] \<and> (0::nat) < length [500000000000000000 :: int] \<and>
   h_amount (reconcile Fin (Some [500000000000000000]) [holding_x] ! 0) = Fin (1 / 2)"
proof -
  note inst = C7_reconcile_overwrites_by_position
    [where rnd = Fin and stored = "[500000000000000000]" and prev = "[holding_x]"
       and h = holding_x]
  have e: "Fin (1 / 2) = Fin (1 / 2)" by simp
  from inst e have r: "reconcile Fin (Some [500000000000000000]) [holding_x] =
      [holding_x\<lparr>h_amount := Fin (1 / 2)\<rparr>]"
    by blast
  then show ?thesis by simp
qed

subsection \<open>toAssetId\<close>

lemma toString16_length: "n < 16 ^ k \<Longrightarrow> 0 < k \<Longrightarrow> length (toString16 n) \<le> k"
proof (induction n arbitrary: k rule: toString16.induct)
  case (1 n)
  show ?case
  proof (cases "n < 16")
    case True
    with "1.prems" show ?thesis
      by (simp add: toString16.simps [of n])
  next
    case False
    from "1.prems" obtain k' where k: "k = Suc k'"
      by (cases k) auto
    from False "1.prems" k have pos: "0 < k'"
      by (cases k') auto
    from "1.prems" k have "n div 16 < 16 ^ k'"
      by (simp add: less_mult_imp_div_less mult.commute)
    from "1.IH" [OF False this pos] False k show ?thesis
      by (simp add: toString16.simps [of n])
  qed
qed

lemma digit_hex: "d < 16 \<Longrightarrow> digit ''0123456789abcdef'' d \<in> set ''0123456789abcdef''"
  unfolding digit_def by (rule nth_mem) simp

lemma toString16_hex: "set (toString16 n) \<subseteq> set ''0123456789abcdef''"
proof (induction n rule: toString16.induct)
  case (1 n)
  show ?case
  proof (cases "n < 16")
    case True
    then show ?thesis
      using digit_hex [of n] by (simp add: toString16.simps [of n])
  next
    case False
    have "n mod 16 < 16" by simp
    from digit_hex [OF this] "1.IH" [OF False] False show ?thesis
      by (simp add: toString16.simps [of n])
  qed
qed

lemma hex_digit_value_digit:
  assumes "d < 16"
  shows "hex_digit_value (digit ''0123456789abcdef'' d) = d"
proof -
  from assms have "d \<in> set [0..<16]" by simp
  then have "d \<in> {0, 1, 2, 3, 4, 5, 6, 7, 8, 9, 10, 11, 12, 13, 14, 15}"
    by (simp add: upt_rec numeral_eq_Suc)
  then show ?thesis
    by (auto simp: hex_digit_value_def digit_def)
qed

lemma hex_value_snoc: "hex_value (s @ [c]) = 16 * hex_value s + hex_digit_value c"
  by (simp add: hex_value_def)

lemma hex_value_toString16: "hex_value (toString16 n) = n"
proof (induction n rule: toString16.induct)
  case (1 n)
  show ?case
  proof (cases "n < 16")
    case True
    then show ?thesis
      by (simp add: toString16.simps [of n] hex_value_def hex_digit_value_digit)
  next
    case False
    have "n mod 16 < 16" by simp
    from "1.IH" [OF False] hex_digit_value_digit [OF this] False show ?thesis
      by (simp add: toString16.simps [of n] hex_value_snoc)
  qed
qed

lemma foldl_hex_zeros:
  "foldl (\<lambda>n c. 16 * n + hex_digit_value c) 0 (replicate k CHR ''0'') = 0"
  by (induction k) (simp_all add: hex_digit_value_def)

lemma hex_value_zeros: "hex_value (replicate k CHR ''0'' @ s) = hex_value s"
  by (simp add: hex_value_def foldl_hex_zeros)

lemma hex8:
  "length (padStart 8 CHR ''0'' (toString16 (unat (w :: 32 word)))) = 8"
proof -
  have "unat w < 2 ^ 32"
    using unsigned_less [of w] by simp
  then have "unat w < 16 ^ 8"
    by simp
  then have "length (toString16 (unat w)) \<le> 8"
    by (rule toString16_length) simp
  then show ?thesis
    by (simp add: padStart_def)
qed

text \<open>
  C8: \<open>toAssetId\<close> is a function of the identifier string alone: it reads no state, no
  clock and no randomness, so the same string gives the same result in every call. Its
  result is \<open>0x\<close> and 64 hexadecimal digits, that is 32 bytes: 56 zeros, then the eight
  digits of a 32-bit hash, so that the 32 bytes are the hash extended with zeros. The
  hash starts from 5381 and folds the bytes of the string one by one, each step
  replacing the hash \<open>h\<close> by \<open>(32 * h + h) XOR byte\<close> in 32 bits: a short hash that is not
  cryptographic.
\<close>

theorem C8_toAssetId_is_padded_hash:
  "toAssetId ident =
     ''0x'' @ replicate 56 CHR ''0'' @ padStart 8 CHR ''0'' (toString16 (unat (djb2 ident))) \<and>
   length (padStart 8 CHR ''0'' (toString16 (unat (djb2 ident)))) = 8 \<and>
   length (toAssetId ident) = 66 \<and>
   list_all (\<lambda>c. c \<in> set ''0123456789abcdef'') (drop 2 (toAssetId ident)) \<and>
   hex_value (drop 2 (toAssetId ident)) = unat (djb2 ident) \<and>
   bytes32_of (toAssetId ident) = ucast (djb2 ident) \<and>
   unat (djb2 ident) < 2 ^ 32 \<and>
   djb2 [] = 5381 \<and>
   djb2 (ident @ [c]) = (push_bit 5 (djb2 ident) + djb2 ident) XOR word_of_nat (of_char c)"
proof -
  let ?hex = "padStart 8 CHR ''0'' (toString16 (unat (djb2 ident)))"
  have len: "length ?hex = 8"
    by (rule hex8)
  have shape: "toAssetId ident = ''0x'' @ replicate 56 CHR ''0'' @ ?hex"
    by (simp add: toAssetId_def Let_def padStart_def [of 64] len)
  have drop2: "drop 2 (''0x'' @ rest) = rest" for rest :: string
    by simp
  have "set ?hex \<subseteq> set ''0123456789abcdef''"
    using toString16_hex [of "unat (djb2 ident)"] by (auto simp: padStart_def)
  then have "set (replicate 56 CHR ''0'' @ ?hex) \<subseteq> set ''0123456789abcdef''"
    by auto
  then have digits: "list_all (\<lambda>c. c \<in> set ''0123456789abcdef'') (drop 2 (toAssetId ident))"
    unfolding shape drop2 list_all_iff by blast
  have val: "hex_value (drop 2 (toAssetId ident)) = unat (djb2 ident)"
    unfolding shape drop2 by (simp add: hex_value_zeros padStart_def hex_value_toString16)
  have b32: "bytes32_of (toAssetId ident) = ucast (djb2 ident)"
    by (simp add: bytes32_of_def val)
  have bound: "unat (djb2 ident) < 2 ^ 32"
    using unsigned_less [of "djb2 ident"] by simp
  have start: "djb2 [] = 5381"
    by (simp add: djb2_def)
  have step: "djb2 (ident @ [c]) =
      (push_bit 5 (djb2 ident) + djb2 ident) XOR word_of_nat (of_char c)"
    by (simp add: djb2_def djb2_step_def)
  have total: "length (toAssetId ident) = 66"
    unfolding shape by (simp add: len)
  show ?thesis
    by (intro conjI shape len total digits val b32 bound start step)
qed

theorem C8_toAssetId_is_padded_hash_witness:
  "toAssetId '''' = ''0x0000000000000000000000000000000000000000000000000000000000001505'' \<and>
   hex_value (drop 2 (toAssetId '''')) = 5381"
proof -
  from C8_toAssetId_is_padded_hash [of "''''"]
  have shape: "toAssetId '''' =
      ''0x'' @ replicate 56 CHR ''0'' @ padStart 8 CHR ''0'' (toString16 (unat (djb2 '''')))"
    and val: "hex_value (drop 2 (toAssetId '''')) = unat (djb2 '''')"
    and start: "djb2 '''' = 5381"
    by blast+
  have "toString16 5381 = ''1505''"
    by (simp add: toString16.simps digit_def)
  moreover have "replicate 4 CHR ''0'' = ''0000''"
    by (simp add: numeral_eq_Suc)
  ultimately have hex: "padStart 8 CHR ''0'' (toString16 (unat (djb2 ''''))) = ''00001505''"
    by (simp add: start padStart_def)
  have zeros: "replicate 56 CHR ''0'' =
      ''00000000000000000000000000000000000000000000000000000000''"
    by (simp add: numeral_eq_Suc)
  have "toAssetId '''' =
      ''0x0000000000000000000000000000000000000000000000000000000000001505''"
    unfolding shape hex zeros by simp
  moreover have "hex_value (drop 2 (toAssetId '''')) = 5381"
    using val start by simp
  ultimately show ?thesis
    by blast
qed

subsection \<open>Polling\<close>

lemma effects_poll [simp]: "effects (poll k c) = effects c"
  by (simp add: poll_def)

lemma in_flight_poll: "set (in_flight (poll k c)) \<subseteq> insert k (set (in_flight c))"
  by (auto simp: poll_def)

lemma in_flight_poll_prefix:
  "take (length (in_flight c)) (in_flight (poll k c)) = in_flight c"
  by (simp add: poll_def)

lemma settle_ignored: "fetchPrices_settle True res v = v"
  by (simp add: fetchPrices_settle_def split: sum.splits)

lemma settle_applied:
  "fetchPrices_try res = Inr p \<Longrightarrow>
   fetchPrices_settle False res v = v\<lparr>prices := p, loading := False\<rparr>"
  by (simp add: fetchPrices_settle_def)

lemma ignored_mount: "earlier_runs_ignored (mount ids0)"
  by (auto simp: earlier_runs_ignored_def mount_def run_effect_def poll_def)

lemma ignored_run_effect:
  assumes "\<forall>k < length (effects c). ignore (effects c ! k)"
    and "\<forall>k \<in> set (in_flight c). k < length (effects c)"
  shows "earlier_runs_ignored (run_effect new_ids c)"
proof -
  let ?c = "c\<lparr>effects := effects c @ [\<lparr>ignore = False, interval = True, ids = new_ids\<rparr>]\<rparr>"
  have e: "effects (run_effect new_ids c) =
      effects c @ [\<lparr>ignore = False, interval = True, ids = new_ids\<rparr>]"
    by (simp add: run_effect_def)
  have "set (in_flight (run_effect new_ids c)) \<subseteq>
      insert (length (effects c)) (set (in_flight c))"
    using in_flight_poll [of "length (effects c)" ?c] by (simp add: run_effect_def)
  then have f: "\<forall>k \<in> set (in_flight (run_effect new_ids c)).
      k < length (effects (run_effect new_ids c))"
    using assms(2) unfolding e by fastforce
  show ?thesis
    unfolding earlier_runs_ignored_def
    using f assms(1) by (simp add: e nth_append)
qed

lemma ignored_happen:
  assumes "earlier_runs_ignored c"
  shows "earlier_runs_ignored (happen e c)"
proof (cases e)
  case (IdsChanged new_ids)
  show ?thesis
  proof (cases "ids (last (effects c)) = new_ids")
    case True
    with assms IdsChanged show ?thesis
      by (simp add: earlier_runs_ignored_def)
  next
    case False
    let ?n = "length (effects c)"
    let ?c = "cleanup (?n - 1) c"
    from assms have ne: "effects c \<noteq> []"
      and old: "\<forall>k < ?n - 1. ignore (effects c ! k)"
      and fl: "\<forall>k \<in> set (in_flight c). k < ?n"
      by (simp_all add: earlier_runs_ignored_def)
    have len: "length (effects ?c) = ?n"
      by (simp add: cleanup_def)
    have ign: "ignore (effects ?c ! k)" if "k < ?n" for k
    proof (cases "k = ?n - 1")
      case True
      with that show ?thesis by (simp add: cleanup_def)
    next
      case False
      with that old show ?thesis by (simp add: cleanup_def)
    qed
    have 1: "\<forall>k < length (effects ?c). ignore (effects ?c ! k)"
      unfolding len using ign by blast
    have 2: "\<forall>k \<in> set (in_flight ?c). k < length (effects ?c)"
      using fl by (simp add: cleanup_def)
    from ignored_run_effect [OF 1 2] False ne IdsChanged show ?thesis
      by simp
  qed
next
  case (Tick k)
  show ?thesis
  proof (cases "k < length (effects c) \<and> interval (effects c ! k)")
    case True
    with assms in_flight_poll [of k c] Tick show ?thesis
      by (auto simp: earlier_runs_ignored_def)
  next
    case False
    with assms Tick show ?thesis by auto
  qed
next
  case (Settled j res)
  show ?thesis
  proof (cases "j < length (in_flight c)")
    case True
    have "k < length (effects c)"
      if "k \<in> set (take j (in_flight c) @ drop (j + 1) (in_flight c))" for k
    proof -
      from that have "k \<in> set (in_flight c)"
        by (auto dest: in_set_takeD in_set_dropD)
      with assms show ?thesis
        by (simp add: earlier_runs_ignored_def)
    qed
    with assms Settled True show ?thesis
      by (simp add: earlier_runs_ignored_def)
  next
    case False
    with assms Settled show ?thesis by simp
  qed
qed

lemma ignored_happen_all:
  "earlier_runs_ignored c \<Longrightarrow> earlier_runs_ignored (happen_all es c)"
  by (induction es arbitrary: c) (simp_all add: ignored_happen)

lemma effects_grow: "length (effects c) \<le> length (effects (happen e c))"
  by (cases e) (simp_all add: run_effect_def cleanup_def)

text \<open>
  C9: take the component at any moment after its mount, whatever has happened to it.
  When the identifier set then changes, every poll in flight was started by a run that
  is no longer the latest, and it stays so, since runs are only added. The response of a
  poll whose run is not the latest changes nothing of what the view shows: neither the
  price mapping, nor \<open>loading\<close>, nor \<open>error\<close>. So the response to a poll started before a
  change of the identifier set is never applied after it.
\<close>

theorem C9_stale_poll_is_ignored:
  "(ids (last (effects (happen_all es (mount ids0)))) \<noteq> new_ids \<longrightarrow>
      (\<forall>k \<in> set (in_flight (happen_all es (mount ids0))).
         k < length (effects (happen (IdsChanged new_ids) (happen_all es (mount ids0)))) - 1) \<and>
      take (length (in_flight (happen_all es (mount ids0))))
        (in_flight (happen (IdsChanged new_ids) (happen_all es (mount ids0)))) =
        in_flight (happen_all es (mount ids0))) \<and>
   (k < length (effects (happen_all es (mount ids0))) - 1 \<longrightarrow>
      k < length (effects (happen e (happen_all es (mount ids0)))) - 1) \<and>
   (j < length (in_flight (happen_all es (mount ids0))) \<and>
    in_flight (happen_all es (mount ids0)) ! j <
      length (effects (happen_all es (mount ids0))) - 1 \<longrightarrow>
      shown (happen (Settled j res) (happen_all es (mount ids0))) =
        shown (happen_all es (mount ids0)) \<and>
      prices (shown (happen (Settled j res) (happen_all es (mount ids0)))) =
        prices (shown (happen_all es (mount ids0))))"
proof -
  let ?c = "happen_all es (mount ids0)"
  have inv: "earlier_runs_ignored ?c"
    by (rule ignored_happen_all [OF ignored_mount])
  then have ne: "effects ?c \<noteq> []"
    and old: "\<And>k. k < length (effects ?c) - 1 \<Longrightarrow> ignore (effects ?c ! k)"
    and fl: "\<And>k. k \<in> set (in_flight ?c) \<Longrightarrow> k < length (effects ?c)"
    by (simp_all add: earlier_runs_ignored_def)
  have 1: "(\<forall>k \<in> set (in_flight ?c). k < length (effects (happen (IdsChanged new_ids) ?c)) - 1) \<and>
      take (length (in_flight ?c)) (in_flight (happen (IdsChanged new_ids) ?c)) = in_flight ?c"
    if "ids (last (effects ?c)) \<noteq> new_ids"
  proof -
    let ?d = "cleanup (length (effects ?c) - 1) ?c"
    let ?d' = "?d\<lparr>effects := effects ?d @ [\<lparr>ignore = False, interval = True, ids = new_ids\<rparr>]\<rparr>"
    have h: "happen (IdsChanged new_ids) ?c = poll (length (effects ?d)) ?d'"
      using that ne by (simp add: run_effect_def)
    have "length (effects (happen (IdsChanged new_ids) ?c)) = length (effects ?c) + 1"
      unfolding h by (simp add: cleanup_def)
    moreover have "take (length (in_flight ?c)) (in_flight (happen (IdsChanged new_ids) ?c)) =
        in_flight ?c"
      unfolding h using in_flight_poll_prefix [of ?d' "length (effects ?d)"]
      by (simp add: cleanup_def)
    ultimately show ?thesis
      using fl by simp
  qed
  have 2: "k < length (effects (happen e ?c)) - 1" if "k < length (effects ?c) - 1"
    using that effects_grow [of ?c e] by arith
  have 3: "shown (happen (Settled j res) ?c) = shown ?c"
    if "j < length (in_flight ?c) \<and> in_flight ?c ! j < length (effects ?c) - 1"
    using that old [of "in_flight ?c ! j"] by (simp add: settle_ignored)
  show ?thesis
    using 1 2 3 by simp
qed

theorem C9_stale_poll_is_ignored_witness:
  "ids (last (effects (happen_all [] (mount ''a'')))) \<noteq> ''b'' \<and>
   in_flight (happen_all [] (mount ''a'')) = [0] \<and>
   in_flight (happen (IdsChanged ''b'') (happen_all [] (mount ''a''))) = [0, 1] \<and>
   (0::nat) < length (effects (happen (IdsChanged ''b'') (happen_all [] (mount ''a'')))) - 1 \<and>
   in_flight (happen_all [IdsChanged ''b'', Settled 1 response_b] (mount ''a'')) = [0] \<and>
   length (effects (happen_all [IdsChanged ''b'', Settled 1 response_b] (mount ''a''))) = 2 \<and>
   (0::nat) < length (effects (happen (Tick 1)
     (happen_all [IdsChanged ''b'', Settled 1 response_b] (mount ''a'')))) - 1 \<and>
   prices (shown (happen_all [IdsChanged ''b'', Settled 1 response_b] (mount ''a''))) = prices_b \<and>
   prices (shown (happen (Settled 0 response_a)
     (happen_all [IdsChanged ''b'', Settled 1 response_b] (mount ''a'')))) = prices_b"
proof -
  let ?m = "happen_all [] (mount ''a'')"
  let ?c = "happen_all [IdsChanged ''b'', Settled 1 response_b] (mount ''a'')"
  have changed: "ids (last (effects ?m)) \<noteq> ''b''"
    by (simp add: mount_def run_effect_def poll_def)
  have fm: "in_flight ?m = [0]"
    by (simp add: mount_def run_effect_def poll_def)
  have fb: "in_flight (happen (IdsChanged ''b'') ?m) = [0, 1]"
    by (simp add: mount_def run_effect_def poll_def cleanup_def)
  from C9_stale_poll_is_ignored [where es = "[]" and ?ids0.0 = "''a''" and new_ids = "''b''"]
    changed
  have "\<forall>k \<in> set (in_flight ?m). k < length (effects (happen (IdsChanged ''b'') ?m)) - 1"
    by blast
  then have stale: "(0::nat) < length (effects (happen (IdsChanged ''b'') ?m)) - 1"
    unfolding fm by simp
  have fl: "in_flight ?c = [0]"
    by (simp add: mount_def run_effect_def poll_def cleanup_def)
  have ef: "length (effects ?c) = 2"
    by (simp add: mount_def run_effect_def poll_def cleanup_def)
  have pb: "prices (shown ?c) = prices_b"
    by (simp add: mount_def run_effect_def poll_def cleanup_def fetchPrices_settle_def
        fetchPrices_try_def fetchPrices_start_def response_b_def ok_def)
  have older: "(0::nat) < length (effects ?c) - 1"
    unfolding ef by simp
  have hyp: "0 < length (in_flight ?c) \<and> in_flight ?c ! 0 < length (effects ?c) - 1"
    unfolding fl ef by simp
  note inst = C9_stale_poll_is_ignored
    [where es = "[IdsChanged ''b'', Settled 1 response_b]" and ?ids0.0 = "''a''" and j = 0
       and res = response_a and k = 0 and e = "Tick 1"]
  from inst older have still: "(0::nat) < length (effects (happen (Tick 1) ?c)) - 1"
    by blast
  from inst hyp
  have "prices (shown (happen (Settled 0 response_a) ?c)) = prices (shown ?c)"
    by blast
  then have kept: "prices (shown (happen (Settled 0 response_a) ?c)) = prices_b"
    unfolding pb .
  show ?thesis
    by (intro conjI changed fm fb stale fl ef still pb kept)
qed

end
